theory Spec2Isabelle
  imports Main "HOL-Library.Word"
begin

unbundle bit_operations_syntax

section \<open>The register map: one simulated key press\<close>

text \<open>
  \<^verbatim>\<open>IR_Remote_Sim.ino\<close> turns an Arduino into an I2C slave that replays queued
  infrared key presses. A key press is the packed struct \<^verbatim>\<open>registerAllocationType\<close>
  (12 bytes); the union \<^verbatim>\<open>dataArrayRegisterAllocationUnionType\<close> lets the same 12 bytes
  be read as the byte array \<^verbatim>\<open>da.ucDataArray\<close> or as the struct \<^verbatim>\<open>ra\<close>. The header
  comment of the sketch fixes the layout (addresses 0 to 11, multi-byte fields least
  significant byte first), which is also what the packed struct is on the AVR target.
\<close>

type_synonym byte = "8 word"

record registerAllocationType =
  bEncoding :: byte
  ui32Data :: "32 word"
  bNumberOfBitsInTheData :: byte
  bPulseTrainRepeats :: byte
  bDelayBetweenPulseTrainRepeats :: byte
  bButtonRepeats :: byte
  ui16DelayBetweenButtonRepeats :: "16 word"
  bFreshData :: byte

definition MAX_SEQUENCES :: nat where
  "MAX_SEQUENCES = 20"

text \<open>\<^verbatim>\<open>#define MAX_BUFFER sizeof(registerAllocationType)\<close>: 1+4+1+1+1+1+2+1 bytes, packed.\<close>

definition MAX_BUFFER :: nat where
  "MAX_BUFFER = 12"

definition ENCODING_TYPE_RC6 :: byte where "ENCODING_TYPE_RC6 = 0"

definition ENCODING_TYPE_SONY :: byte where "ENCODING_TYPE_SONY = 1"

definition ENCODING_TYPE_SAMSUNG :: byte where "ENCODING_TYPE_SAMSUNG = 2"

definition ENCODING_TYPE_NEC :: byte where "ENCODING_TYPE_NEC = 3"

definition ENCODING_TYPE_LG :: byte where "ENCODING_TYPE_LG = 4"

text \<open>
  The \<^verbatim>\<open>ra\<close> view of a slot: the struct read off the 12 bytes of \<^verbatim>\<open>da.ucDataArray\<close>
  (the slave reads every field this way, after \<^verbatim>\<open>receiveEvent\<close> has stored the bytes).
\<close>

definition ra :: "byte list \<Rightarrow> registerAllocationType" where
  "ra bs = \<lparr>
     bEncoding = bs ! 0,
     ui32Data = ucast (bs ! 1) OR push_bit 8 (ucast (bs ! 2)) OR
                push_bit 16 (ucast (bs ! 3)) OR push_bit 24 (ucast (bs ! 4)),
     bNumberOfBitsInTheData = bs ! 5,
     bPulseTrainRepeats = bs ! 6,
     bDelayBetweenPulseTrainRepeats = bs ! 7,
     bButtonRepeats = bs ! 8,
     ui16DelayBetweenButtonRepeats = ucast (bs ! 9) OR push_bit 8 (ucast (bs ! 10)),
     bFreshData = bs ! 11 \<rparr>"

text \<open>
  The \<^verbatim>\<open>da\<close> view of a struct: the 12 bytes the master sends with
  \<^verbatim>\<open>Wire.write(uData.da.ucDataArray, MAX_BUFFER)\<close> after filling in \<^verbatim>\<open>uData.ra\<close>
  (the test sketch, and the usage note of the slave).
\<close>

definition da :: "registerAllocationType \<Rightarrow> byte list" where
  "da r = [bEncoding r,
           ucast (ui32Data r), ucast (drop_bit 8 (ui32Data r)),
           ucast (drop_bit 16 (ui32Data r)), ucast (drop_bit 24 (ui32Data r)),
           bNumberOfBitsInTheData r, bPulseTrainRepeats r,
           bDelayBetweenPulseTrainRepeats r, bButtonRepeats r,
           ucast (ui16DelayBetweenButtonRepeats r),
           ucast (drop_bit 8 (ui16DelayBetweenButtonRepeats r)),
           bFreshData r]"

section \<open>The state of the slave\<close>

datatype eSEND_STATE = eIDLE | eBUSY

text \<open>
  What the sketch does to the outside world, in the order it does it: writes to
  \<^verbatim>\<open>READY_FOR_DATA_PIN\<close>, calls of \<^verbatim>\<open>irsend.sendXXX(data, nbits)\<close> and calls of
  \<^verbatim>\<open>delay(ms)\<close>. \<open>Switch e\<close> marks that control reached the \<^verbatim>\<open>switch\<close> on
  \<^verbatim>\<open>bEncoding\<close> (line 213) with the value \<open>e\<close>: the encoder dispatch, whether or not a
  \<^verbatim>\<open>case\<close> matches.
\<close>

datatype event =
    DigitalWrite bool
  | Switch byte
  | SendRC6 "32 word" int
  | SendSony "32 word" int
  | SendSAMSUNG "32 word" int
  | SendNEC "32 word" int
  | SendLG "32 word" int
  | Delay nat

text \<open>
  The globals of the sketch. The counters are 16-bit on the target; they stay below 256
  (\<^verbatim>\<open>uiDataArrayPointer\<close> below 20), so they are natural numbers here. \<open>rxBuffer\<close> is
  the Wire library's receive buffer (the bytes \<^verbatim>\<open>Wire.read()\<close> has not returned yet),
  \<open>ready_pin\<close> the level of \<^verbatim>\<open>READY_FOR_DATA_PIN\<close>, \<open>trace\<close> the events so far.
\<close>

record state =
  uDataArray :: "byte list list"
  current_state :: eSEND_STATE
  uiRegisterPointer :: nat
  uiDataArrayPointer :: nat
  bFreshDataFlag :: bool
  iDataArrayIndex :: nat
  iPulseTrainRepeats :: nat
  iButtonRepeats :: nat
  rxBuffer :: "byte list"
  ready_pin :: bool
  trace :: "event list"

definition digitalWrite :: "bool \<Rightarrow> state \<Rightarrow> state" where
  "digitalWrite v s = s\<lparr>ready_pin := v, trace := trace s @ [DigitalWrite v]\<rparr>"

definition delay :: "nat \<Rightarrow> state \<Rightarrow> state" where
  "delay ms s = s\<lparr>trace := trace s @ [Delay ms]\<rparr>"

text \<open>
  \<^verbatim>\<open>uDataArray[i].ra\<close>: an index outside the 20 slots of the array is undefined
  behaviour in C, \<open>None\<close> here.
\<close>

definition uDataArray_ra :: "state \<Rightarrow> nat \<Rightarrow> registerAllocationType option" where
  "uDataArray_ra s i = (if i < MAX_SEQUENCES then Some (ra (uDataArray s ! i)) else None)"

text \<open>\<^verbatim>\<open>setup()\<close>: the state in which \<^verbatim>\<open>loop()\<close> first runs.\<close>

definition setup_fn :: state where
  "setup_fn = \<lparr>
     uDataArray = replicate MAX_SEQUENCES (replicate MAX_BUFFER 0),
     current_state = eIDLE,
     uiRegisterPointer = 0,
     uiDataArrayPointer = 0,
     bFreshDataFlag = False,
     iDataArrayIndex = 0,
     iPulseTrainRepeats = 0,
     iButtonRepeats = 0,
     rxBuffer = [],
     ready_pin = True,
     trace = [DigitalWrite False, DigitalWrite True] \<rparr>"

section \<open>Reception: \<^verbatim>\<open>receiveEvent()\<close>\<close>

text \<open>
  \<^verbatim>\<open>Wire.read()\<close>: the next byte of the receive buffer, or -1 when none is left (the
  Arduino Wire library's contract).
\<close>

definition Wire_read :: "state \<Rightarrow> int \<times> state" where
  "Wire_read s =
     (case rxBuffer s of
        [] \<Rightarrow> (- 1, s)
      | b # bs \<Rightarrow> (uint b, s\<lparr>rxBuffer := bs\<rparr>))"

text \<open>
  \<^verbatim>\<open>uDataArray[uiDataArrayPointer].da.ucDataArray[uiRegisterPointer] = v\<close> (line 274).
  A write outside the 20 slots of 12 bytes is undefined behaviour in C, \<open>None\<close> here.
\<close>

definition da_write :: "byte \<Rightarrow> state \<Rightarrow> state option" where
  "da_write v s =
     (if uiDataArrayPointer s < MAX_SEQUENCES \<and> uiRegisterPointer s < MAX_BUFFER
      then Some (s\<lparr>uDataArray := (uDataArray s)
                  [uiDataArrayPointer s :=
                     (uDataArray s ! uiDataArrayPointer s)[uiRegisterPointer s := v]]\<rparr>)
      else None)"

text \<open>\<^verbatim>\<open>for (int x = 0; x < howMany; x++)\<close> of lines 272 to 276.\<close>

function read_loop :: "int \<Rightarrow> int \<Rightarrow> state \<Rightarrow> state option" where
  "read_loop x howMany s =
     (if x < howMany
      then (case Wire_read s of
              (v, s1) \<Rightarrow>
                (case da_write (word_of_int v) s1 of
                   None \<Rightarrow> None
                 | Some s2 \<Rightarrow>
                     read_loop (x + 1) howMany
                       (s2\<lparr>uiRegisterPointer := uiRegisterPointer s2 + 1\<rparr>)))
      else Some s)"
  by pat_completeness auto

termination
  by (relation "measure (\<lambda>(x, howMany, s). nat (howMany - x))") auto

declare read_loop.simps [simp del]

text \<open>\<^verbatim>\<open>for (int x = 0; x < howMany-1; x++) b = Wire.read();\<close> of lines 304 and 305.\<close>

function drain_loop :: "int \<Rightarrow> int \<Rightarrow> state \<Rightarrow> state" where
  "drain_loop x howMany s =
     (if x < howMany - 1
      then drain_loop (x + 1) howMany (snd (Wire_read s))
      else s)"
  by pat_completeness auto

termination
  by (relation "measure (\<lambda>(x, howMany, s). nat (howMany - 1 - x))") auto

declare drain_loop.simps [simp del]

text \<open>\<^verbatim>\<open>receiveEvent(howMany)\<close>, without the serial debug output.\<close>

definition receiveEvent :: "int \<Rightarrow> state \<Rightarrow> state option" where
  "receiveEvent howMany s =
     (if 0 < howMany \<and> howMany = int MAX_BUFFER
      then (case read_loop 0 howMany (s\<lparr>uiRegisterPointer := 0\<rparr>) of
              None \<Rightarrow> None
            | Some s1 \<Rightarrow>
                (case uDataArray_ra s1 (uiDataArrayPointer s1) of
                   None \<Rightarrow> None
                 | Some f \<Rightarrow>
                     (let s2 = (if bFreshData f \<noteq> 0 then s1\<lparr>bFreshDataFlag := True\<rparr> else s1)
                      in Some (if uiDataArrayPointer s2 < MAX_SEQUENCES - 1
                               then s2\<lparr>uiDataArrayPointer := uiDataArrayPointer s2 + 1\<rparr>
                               else s2))))
      else Some (drain_loop 0 howMany s))"

text \<open>
  An inbound transfer of the bytes \<open>bs\<close>: the Wire library puts them in its receive
  buffer and calls the handler registered in \<^verbatim>\<open>setup()\<close> with their number. (What
  the library does with a transfer that arrives while bytes of the one before are still
  unread is not part of the sketch. The runs of transfers below are of 12 bytes each, and
  the handler reads those to the end.)
\<close>

definition onReceive :: "byte list \<Rightarrow> state \<Rightarrow> state option" where
  "onReceive bs s = receiveEvent (int (length bs)) (s\<lparr>rxBuffer := bs\<rparr>)"

text \<open>A run of transfers, none of them interrupted by \<^verbatim>\<open>loop()\<close>.\<close>

fun onReceive_all :: "byte list list \<Rightarrow> state \<Rightarrow> state option" where
  "onReceive_all [] s = Some s"
| "onReceive_all (bs # bss) s =
     (case onReceive bs s of
        None \<Rightarrow> None
      | Some s1 \<Rightarrow> onReceive_all bss s1)"

section \<open>Playback: \<^verbatim>\<open>loop()\<close>\<close>

text \<open>
  The \<^verbatim>\<open>switch\<close> of lines 213 to 229: the \<^verbatim>\<open>irsend\<close> call it makes. There is no
  \<^verbatim>\<open>default\<close> label, so any other encoding makes no call.
\<close>

definition irsend :: "registerAllocationType \<Rightarrow> event list" where
  "irsend f =
     (let d = ui32Data f; n = uint (bNumberOfBitsInTheData f) in
      if bEncoding f = ENCODING_TYPE_RC6 then [SendRC6 d n]
      else if bEncoding f = ENCODING_TYPE_SONY then [SendSony d n]
      else if bEncoding f = ENCODING_TYPE_SAMSUNG then [SendSAMSUNG d n]
      else if bEncoding f = ENCODING_TYPE_NEC then [SendNEC d n]
      else if bEncoding f = ENCODING_TYPE_LG then [SendLG d n]
      else [])"

text \<open>
  The body of the innermost \<^verbatim>\<open>while\<close> (lines 213 to 231). It reads the slot for
  every field it uses and writes nothing to the array, so the one read \<open>f\<close> of the loop
  condition stands for these reads.
\<close>

definition pulse_body :: "registerAllocationType \<Rightarrow> state \<Rightarrow> state" where
  "pulse_body f s =
     (let s1 = s\<lparr>trace := trace s @ Switch (bEncoding f) # irsend f\<rparr>;
          s2 = delay (unat (bDelayBetweenPulseTrainRepeats f)) s1
      in s2\<lparr>iPulseTrainRepeats := iPulseTrainRepeats s2 + 1\<rparr>)"

text \<open>
  \<^verbatim>\<open>while (iPulseTrainRepeats < uDataArray[iDataArrayIndex].ra.bPulseTrainRepeats)\<close>
  (lines 212 to 232).
\<close>

function pulse_loop :: "state \<Rightarrow> state option" where
  "pulse_loop s =
     (case uDataArray_ra s (iDataArrayIndex s) of
        None \<Rightarrow> None
      | Some f \<Rightarrow>
          if iPulseTrainRepeats s < unat (bPulseTrainRepeats f)
          then pulse_loop (pulse_body f s)
          else Some s)"
  by pat_completeness auto

termination
proof (relation "measure (\<lambda>s. 256 - iPulseTrainRepeats s)")
  show "wf (measure (\<lambda>s. 256 - iPulseTrainRepeats s))" by simp
next
  fix s :: state and f :: registerAllocationType
  assume "iPulseTrainRepeats s < unat (bPulseTrainRepeats f)"
  moreover have "unat (bPulseTrainRepeats f) < 256"
    using unsigned_less [of "bPulseTrainRepeats f"] by simp
  ultimately show "(pulse_body f s, s) \<in> measure (\<lambda>s. 256 - iPulseTrainRepeats s)"
    by (simp add: pulse_body_def delay_def Let_def)
qed

declare pulse_loop.simps [simp del]

text \<open>What one pass through the innermost body emits.\<close>

definition pulse_events :: "registerAllocationType \<Rightarrow> event list" where
  "pulse_events f =
     Switch (bEncoding f) # irsend f @ [Delay (unat (bDelayBetweenPulseTrainRepeats f))]"

lemma pulse_body_eq:
  "pulse_body f s =
     s\<lparr>iPulseTrainRepeats := iPulseTrainRepeats s + 1, trace := trace s @ pulse_events f\<rparr>"
  by (simp add: pulse_body_def delay_def pulse_events_def Let_def)

lemma pulse_loop_spec:
  assumes "iDataArrayIndex s < MAX_SEQUENCES"
  shows "pulse_loop s =
    Some (s\<lparr>iPulseTrainRepeats :=
               max (iPulseTrainRepeats s)
                 (unat (bPulseTrainRepeats (ra (uDataArray s ! iDataArrayIndex s)))),
            trace := trace s @
               concat (replicate
                 (unat (bPulseTrainRepeats (ra (uDataArray s ! iDataArrayIndex s)))
                    - iPulseTrainRepeats s)
                 (pulse_events (ra (uDataArray s ! iDataArrayIndex s))))\<rparr>)"
  using assms
proof (induction s rule: pulse_loop.induct)
  case (1 s)
  define f where "f = ra (uDataArray s ! iDataArrayIndex s)"
  define p where "p = unat (bPulseTrainRepeats f)"
  have rd: "uDataArray_ra s (iDataArrayIndex s) = Some f"
    using "1.prems" by (simp add: uDataArray_ra_def f_def)
  show ?case
  proof (cases "iPulseTrainRepeats s < p")
    case True
    have step: "pulse_loop s = pulse_loop (pulse_body f s)"
      using rd True by (subst pulse_loop.simps) (simp add: p_def)
    have ih: "pulse_loop (pulse_body f s) =
      Some ((pulse_body f s)\<lparr>iPulseTrainRepeats := max (iPulseTrainRepeats s + 1) p,
        trace := trace s @ pulse_events f @
          concat (replicate (p - (iPulseTrainRepeats s + 1)) (pulse_events f))\<rparr>)"
      using "1.IH" [OF rd] True "1.prems"
      by (simp add: p_def f_def pulse_body_eq)
    have cnt: "p - iPulseTrainRepeats s = Suc (p - (iPulseTrainRepeats s + 1))"
      using True by simp
    show ?thesis
      unfolding f_def [symmetric] p_def [symmetric] step ih cnt
      using True by (simp add: pulse_body_eq max_def)
  next
    case False
    have "pulse_loop s = Some s"
      using rd False by (subst pulse_loop.simps) (simp add: p_def)
    then show ?thesis
      using False by (simp add: f_def [symmetric] p_def [symmetric] max_def)
  qed
qed

lemma pulse_loop_Some:
  assumes "pulse_loop s = Some s1"
  shows "iDataArrayIndex s < MAX_SEQUENCES"
    and "s1 = s\<lparr>iPulseTrainRepeats :=
               max (iPulseTrainRepeats s)
                 (unat (bPulseTrainRepeats (ra (uDataArray s ! iDataArrayIndex s)))),
            trace := trace s @
               concat (replicate
                 (unat (bPulseTrainRepeats (ra (uDataArray s ! iDataArrayIndex s)))
                    - iPulseTrainRepeats s)
                 (pulse_events (ra (uDataArray s ! iDataArrayIndex s))))\<rparr>"
proof -
  show i: "iDataArrayIndex s < MAX_SEQUENCES"
  proof (rule ccontr)
    assume "\<not> iDataArrayIndex s < MAX_SEQUENCES"
    then have "pulse_loop s = None"
      by (subst pulse_loop.simps) (simp add: uDataArray_ra_def)
    with assms show False by simp
  qed
  show "s1 = s\<lparr>iPulseTrainRepeats :=
               max (iPulseTrainRepeats s)
                 (unat (bPulseTrainRepeats (ra (uDataArray s ! iDataArrayIndex s)))),
            trace := trace s @
               concat (replicate
                 (unat (bPulseTrainRepeats (ra (uDataArray s ! iDataArrayIndex s)))
                    - iPulseTrainRepeats s)
                 (pulse_events (ra (uDataArray s ! iDataArrayIndex s))))\<rparr>"
    using pulse_loop_spec [OF i] assms by simp
qed

text \<open>
  The end of the body of the middle \<^verbatim>\<open>while\<close> (lines 233 to 235): the delay between
  button repeats, made only when it is not zero, and the increment.
\<close>

definition button_tail :: "registerAllocationType \<Rightarrow> state \<Rightarrow> state" where
  "button_tail f s =
     (let s1 = (if 0 < ui16DelayBetweenButtonRepeats f
                then delay (unat (ui16DelayBetweenButtonRepeats f)) s else s)
      in s1\<lparr>iButtonRepeats := iButtonRepeats s1 + 1\<rparr>)"

text \<open>
  \<^verbatim>\<open>while (iButtonRepeats < uDataArray[iDataArrayIndex].ra.bButtonRepeats)\<close>
  (lines 210 to 236).
\<close>

function button_loop :: "state \<Rightarrow> state option" where
  "button_loop s =
     (case uDataArray_ra s (iDataArrayIndex s) of
        None \<Rightarrow> None
      | Some f \<Rightarrow>
          if iButtonRepeats s < unat (bButtonRepeats f)
          then (case pulse_loop (s\<lparr>iPulseTrainRepeats := 0\<rparr>) of
                  None \<Rightarrow> None
                | Some s1 \<Rightarrow>
                    (case uDataArray_ra s1 (iDataArrayIndex s1) of
                       None \<Rightarrow> None
                     | Some f1 \<Rightarrow> button_loop (button_tail f1 s1)))
          else Some s)"
  by pat_completeness auto

termination
proof (relation "measure (\<lambda>s. 256 - iButtonRepeats s)")
  show "wf (measure (\<lambda>s. 256 - iButtonRepeats s))" by simp
next
  fix s s1 :: state and f f1 :: registerAllocationType
  assume lt: "iButtonRepeats s < unat (bButtonRepeats f)"
    and pl: "pulse_loop (s\<lparr>iPulseTrainRepeats := 0\<rparr>) = Some s1"
  have "unat (bButtonRepeats f) < 256"
    using unsigned_less [of "bButtonRepeats f"] by simp
  moreover have "iButtonRepeats s1 = iButtonRepeats s"
    by (subst pulse_loop_Some(2) [OF pl]) simp
  ultimately show "(button_tail f1 s1, s) \<in> measure (\<lambda>s. 256 - iButtonRepeats s)"
    using lt by (simp add: button_tail_def delay_def Let_def)
qed

declare button_loop.simps [simp del]

text \<open>What one button repeat emits, and what the playback of one slot emits.\<close>

definition button_delay_events :: "registerAllocationType \<Rightarrow> event list" where
  "button_delay_events f =
     (if 0 < ui16DelayBetweenButtonRepeats f
      then [Delay (unat (ui16DelayBetweenButtonRepeats f))] else [])"

definition button_events :: "registerAllocationType \<Rightarrow> event list" where
  "button_events f =
     concat (replicate (unat (bPulseTrainRepeats f)) (pulse_events f)) @ button_delay_events f"

definition frame_events :: "registerAllocationType \<Rightarrow> event list" where
  "frame_events f = concat (replicate (unat (bButtonRepeats f)) (button_events f))"

lemma button_tail_eq:
  "button_tail f s =
     s\<lparr>iButtonRepeats := iButtonRepeats s + 1, trace := trace s @ button_delay_events f\<rparr>"
  by (simp add: button_tail_def delay_def button_delay_events_def Let_def)

lemma button_loop_spec:
  assumes "iDataArrayIndex s < MAX_SEQUENCES"
  shows "button_loop s =
    Some (s\<lparr>iPulseTrainRepeats :=
              (if iButtonRepeats s < unat (bButtonRepeats (ra (uDataArray s ! iDataArrayIndex s)))
               then unat (bPulseTrainRepeats (ra (uDataArray s ! iDataArrayIndex s)))
               else iPulseTrainRepeats s),
            iButtonRepeats :=
               max (iButtonRepeats s)
                 (unat (bButtonRepeats (ra (uDataArray s ! iDataArrayIndex s)))),
            trace := trace s @
               concat (replicate
                 (unat (bButtonRepeats (ra (uDataArray s ! iDataArrayIndex s)))
                    - iButtonRepeats s)
                 (button_events (ra (uDataArray s ! iDataArrayIndex s))))\<rparr>)"
  using assms
proof (induction s rule: button_loop.induct)
  case (1 s)
  define f where "f = ra (uDataArray s ! iDataArrayIndex s)"
  define b where "b = unat (bButtonRepeats f)"
  define p where "p = unat (bPulseTrainRepeats f)"
  have rd: "uDataArray_ra s (iDataArrayIndex s) = Some f"
    using "1.prems" by (simp add: uDataArray_ra_def f_def)
  show ?case
  proof (cases "iButtonRepeats s < b")
    case True
    define s1 where "s1 = s\<lparr>iPulseTrainRepeats := p,
      trace := trace s @ concat (replicate p (pulse_events f))\<rparr>"
    have pl: "pulse_loop (s\<lparr>iPulseTrainRepeats := 0\<rparr>) = Some s1"
      using pulse_loop_spec [of "s\<lparr>iPulseTrainRepeats := 0\<rparr>"] "1.prems"
      by (simp add: s1_def f_def p_def)
    have rd1: "uDataArray_ra s1 (iDataArrayIndex s1) = Some f"
      using "1.prems" by (simp add: uDataArray_ra_def f_def s1_def)
    have step: "button_loop s = button_loop (button_tail f s1)"
      using rd True pl rd1 by (subst button_loop.simps) (simp add: b_def)
    have ih: "button_loop (button_tail f s1) =
      Some ((button_tail f s1)\<lparr>iPulseTrainRepeats := p,
        iButtonRepeats := max (iButtonRepeats s + 1) b,
        trace := trace s @ button_events f @
          concat (replicate (b - (iButtonRepeats s + 1)) (button_events f))\<rparr>)"
      using "1.IH" [OF rd _ pl rd1] True "1.prems"
      by (simp add: b_def p_def f_def s1_def button_tail_eq button_events_def)
    have cnt: "b - iButtonRepeats s = Suc (b - (iButtonRepeats s + 1))"
      using True by simp
    show ?thesis
      unfolding f_def [symmetric] b_def [symmetric] p_def [symmetric] step ih cnt
      using True by (simp add: button_tail_eq s1_def max_def)
  next
    case False
    have "button_loop s = Some s"
      using rd False by (subst button_loop.simps) (simp add: b_def)
    then show ?thesis
      using False by (simp add: f_def [symmetric] b_def [symmetric] max_def)
  qed
qed

lemma button_loop_Some:
  assumes "button_loop s = Some s1"
  shows "iDataArrayIndex s < MAX_SEQUENCES"
    and "s1 = s\<lparr>iPulseTrainRepeats :=
              (if iButtonRepeats s < unat (bButtonRepeats (ra (uDataArray s ! iDataArrayIndex s)))
               then unat (bPulseTrainRepeats (ra (uDataArray s ! iDataArrayIndex s)))
               else iPulseTrainRepeats s),
            iButtonRepeats :=
               max (iButtonRepeats s)
                 (unat (bButtonRepeats (ra (uDataArray s ! iDataArrayIndex s)))),
            trace := trace s @
               concat (replicate
                 (unat (bButtonRepeats (ra (uDataArray s ! iDataArrayIndex s)))
                    - iButtonRepeats s)
                 (button_events (ra (uDataArray s ! iDataArrayIndex s))))\<rparr>"
proof -
  show i: "iDataArrayIndex s < MAX_SEQUENCES"
  proof (rule ccontr)
    assume "\<not> iDataArrayIndex s < MAX_SEQUENCES"
    then have "button_loop s = None"
      by (subst button_loop.simps) (simp add: uDataArray_ra_def)
    with assms show False by simp
  qed
  show "s1 = s\<lparr>iPulseTrainRepeats :=
              (if iButtonRepeats s < unat (bButtonRepeats (ra (uDataArray s ! iDataArrayIndex s)))
               then unat (bPulseTrainRepeats (ra (uDataArray s ! iDataArrayIndex s)))
               else iPulseTrainRepeats s),
            iButtonRepeats :=
               max (iButtonRepeats s)
                 (unat (bButtonRepeats (ra (uDataArray s ! iDataArrayIndex s)))),
            trace := trace s @
               concat (replicate
                 (unat (bButtonRepeats (ra (uDataArray s ! iDataArrayIndex s)))
                    - iButtonRepeats s)
                 (button_events (ra (uDataArray s ! iDataArrayIndex s))))\<rparr>"
    using button_loop_spec [OF i] assms by simp
qed

text \<open>\<^verbatim>\<open>while (iDataArrayIndex < (uiDataArrayPointer))\<close> (lines 208 to 238).\<close>

function frame_loop :: "state \<Rightarrow> state option" where
  "frame_loop s =
     (if iDataArrayIndex s < uiDataArrayPointer s
      then (case button_loop (s\<lparr>iButtonRepeats := 0\<rparr>) of
              None \<Rightarrow> None
            | Some s1 \<Rightarrow> frame_loop (s1\<lparr>iDataArrayIndex := iDataArrayIndex s1 + 1\<rparr>))
      else Some s)"
  by pat_completeness auto

termination
proof (relation "measure (\<lambda>s. uiDataArrayPointer s - iDataArrayIndex s)")
  show "wf (measure (\<lambda>s. uiDataArrayPointer s - iDataArrayIndex s))" by simp
next
  fix s s1 :: state
  assume lt: "iDataArrayIndex s < uiDataArrayPointer s"
    and bl: "button_loop (s\<lparr>iButtonRepeats := 0\<rparr>) = Some s1"
  have "iDataArrayIndex s1 = iDataArrayIndex s" "uiDataArrayPointer s1 = uiDataArrayPointer s"
    by (subst button_loop_Some(2) [OF bl], simp)+
  then show "(s1\<lparr>iDataArrayIndex := iDataArrayIndex s1 + 1\<rparr>, s)
      \<in> measure (\<lambda>s. uiDataArrayPointer s - iDataArrayIndex s)"
    using lt by simp
qed

declare frame_loop.simps [simp del]

text \<open>
  The three \<^verbatim>\<open>if\<close> statements of \<^verbatim>\<open>loop()\<close>, and \<^verbatim>\<open>loop()\<close> itself. On the
  target \<^verbatim>\<open>receiveEvent\<close> runs as an interrupt handler; here one call of \<^verbatim>\<open>loop()\<close>
  is one step, and transfers arrive between two calls.
\<close>

definition loop_start :: "state \<Rightarrow> state" where
  "loop_start s =
     (if bFreshDataFlag s \<and> current_state s = eIDLE
      then (digitalWrite False s)
             \<lparr>current_state := eBUSY, bFreshDataFlag := False, iDataArrayIndex := 0\<rparr>
      else s)"

definition loop_play :: "state \<Rightarrow> state option" where
  "loop_play s = (if current_state s = eBUSY then frame_loop s else Some s)"

definition loop_finish :: "state \<Rightarrow> state" where
  "loop_finish s =
     (if uiDataArrayPointer s \<le> iDataArrayIndex s \<and> current_state s = eBUSY
      then digitalWrite True (s\<lparr>current_state := eIDLE, uiDataArrayPointer := 0\<rparr>)
      else s)"

definition loop :: "state \<Rightarrow> state option" where
  "loop s =
     (case loop_play (loop_start s) of
        None \<Rightarrow> None
      | Some s1 \<Rightarrow> Some (loop_finish s1))"

section \<open>Derived notions\<close>

text \<open>
  What the playback of the slots \<open>i\<close> to \<open>n - 1\<close> emits (from \<open>frame_events\<close>, which the
  lemmas on the loops above tie to the code), the shape of the queue storage, the test
  of line 296 on a transfer, and counts over traces.
\<close>

text \<open>The events of playing the slots \<open>i\<close> to \<open>n - 1\<close> of the array, in this order.\<close>

definition slots_events :: "byte list list \<Rightarrow> nat \<Rightarrow> nat \<Rightarrow> event list" where
  "slots_events arr i n = concat (map (\<lambda>k. frame_events (ra (arr ! k))) [i..<n])"

text \<open>
  The shape of the queue storage, and the bound \<^verbatim>\<open>receiveEvent\<close> keeps on the write
  cursor.
\<close>

definition wf_state :: "state \<Rightarrow> bool" where
  "wf_state s \<longleftrightarrow>
     length (uDataArray s) = MAX_SEQUENCES \<and>
     list_all (\<lambda>slot. length slot = MAX_BUFFER) (uDataArray s) \<and>
     uiDataArrayPointer s < MAX_SEQUENCES"

text \<open>
  The test of line 296 on the 12 bytes of a transfer: the key press is marked as the
  last of its batch.
\<close>

definition fresh :: "byte list \<Rightarrow> bool" where
  "fresh bs \<longleftrightarrow> bFreshData (ra bs) \<noteq> 0"


text \<open>Counting the encoder dispatches and picking the \<^verbatim>\<open>irsend\<close> calls of a trace.\<close>

fun is_dispatch :: "event \<Rightarrow> bool" where
  "is_dispatch (Switch e) = True"
| "is_dispatch _ = False"

fun is_send :: "event \<Rightarrow> bool" where
  "is_send (DigitalWrite v) = False"
| "is_send (Switch e) = False"
| "is_send (Delay ms) = False"
| "is_send _ = True"

definition dispatches :: "event list \<Rightarrow> nat" where
  "dispatches evs = length (filter is_dispatch evs)"

definition sends :: "event list \<Rightarrow> event list" where
  "sends evs = filter is_send evs"

text \<open>What one call of \<^verbatim>\<open>loop()\<close> emits.\<close>

definition loop_events :: "state \<Rightarrow> event list option" where
  "loop_events s = map_option (\<lambda>v. drop (length (trace s)) (trace v)) (loop s)"

subsection \<open>Example key presses\<close>

text \<open>
  A key press as the master would send it: RC6, code \<open>0xC05C01\<close> of 24 bits, 3 pulse
  trains 124 ms apart, 2 button repeats 400 ms apart, marked fresh. And the state of the
  slave once it has received it after \<^verbatim>\<open>setup()\<close>.
\<close>

definition example_key :: "byte list" where
  "example_key = [0, 0x01, 0x5C, 0xC0, 0, 24, 3, 124, 2, 0x90, 0x01, 0xFF]"

definition example_state :: state where
  "example_state = setup_fn\<lparr>uDataArray := (uDataArray setup_fn)[0 := example_key],
     uiRegisterPointer := 12, uiDataArrayPointer := 1, bFreshDataFlag := True\<rparr>"

text \<open>The busy state in which the playback of \<open>example_state\<close> ends.\<close>

definition example_played :: state where
  "example_played = example_state\<lparr>current_state := eBUSY, bFreshDataFlag := False,
     iDataArrayIndex := 1, iPulseTrainRepeats := 3, iButtonRepeats := 2, ready_pin := False,
     trace := trace example_state @ DigitalWrite False # frame_events (ra example_key)\<rparr>"

text \<open>
  A playback during which a key press marked fresh arrives: the slave has received
  \<open>example_key\<close> and entered the busy state (first \<^verbatim>\<open>if\<close> of \<^verbatim>\<open>loop()\<close>), the handler
  then stores \<open>example_key\<close> once more, and the playback loop runs to its end. And the
  state after the third \<^verbatim>\<open>if\<close>.
\<close>

definition example_busy :: "state option" where
  "example_busy = Option.bind (onReceive example_key (loop_start example_state)) loop_play"

definition example_interrupted :: "state option" where
  "example_interrupted = map_option loop_finish example_busy"

text \<open>
  A key press with an encoding the \<^verbatim>\<open>switch\<close> has no \<^verbatim>\<open>case\<close> for (2 pulse trains
  22 ms apart, 1 button repeat, no delay after it), one with no button repeat, and one
  with 2 button repeats 400 ms apart and no pulse train.
\<close>

definition example_odd_key :: "byte list" where
  "example_odd_key = [9, 0x0C, 0x14, 0, 0, 15, 2, 22, 1, 0, 0, 0]"

definition example_zero_key :: "byte list" where
  "example_zero_key = [1, 0x0C, 0x14, 0, 0, 15, 4, 22, 0, 0x90, 0x01, 0]"

definition example_wait_key :: "byte list" where
  "example_wait_key = [1, 0x0C, 0x14, 0, 0, 15, 0, 22, 2, 0x90, 0x01, 0]"

text \<open>Two key presses queued after \<^verbatim>\<open>setup()\<close>, the second marked fresh.\<close>

definition queue2 :: "byte list \<Rightarrow> byte list \<Rightarrow> state" where
  "queue2 k1 k2 = setup_fn\<lparr>uDataArray := (uDataArray setup_fn)[0 := k1, 1 := k2],
     uiRegisterPointer := 12, uiDataArrayPointer := 2,
     bFreshDataFlag := (fresh k1 \<or> fresh k2)\<rparr>"

text \<open>Twenty-one key presses: one, nineteen of another kind, and a last one.\<close>

definition example_overflow :: "byte list list" where
  "example_overflow = example_key # replicate 19 example_zero_key @ [example_odd_key]"

section \<open>Lemmas\<close>

subsection \<open>The two views of the union\<close>

lemma le32_split:
  fixes d :: "32 word"
  shows "ucast (ucast d :: byte) OR push_bit 8 (ucast (ucast (drop_bit 8 d) :: byte)) OR
         push_bit 16 (ucast (ucast (drop_bit 16 d) :: byte)) OR
         push_bit 24 (ucast (ucast (drop_bit 24 d) :: byte)) = d"
proof (rule bit_word_eqI)
  fix n assume "n < LENGTH(32)"
  then show "bit (ucast (ucast d :: byte) OR push_bit 8 (ucast (ucast (drop_bit 8 d) :: byte)) OR
         push_bit 16 (ucast (ucast (drop_bit 16 d) :: byte)) OR
         push_bit 24 (ucast (ucast (drop_bit 24 d) :: byte)) :: 32 word) n = bit d n"
    by (cases "n < 8"; cases "n < 16"; cases "n < 24") (auto simp add: bit_simps)
qed

lemma le16_split:
  fixes d :: "16 word"
  shows "ucast (ucast d :: byte) OR push_bit 8 (ucast (ucast (drop_bit 8 d) :: byte)) = d"
  by (rule bit_word_eqI) (auto simp add: bit_simps)

lemma le32_bytes:
  fixes b0 b1 b2 b3 :: byte
  defines "d \<equiv> (ucast b0 OR push_bit 8 (ucast b1) OR push_bit 16 (ucast b2) OR
                  push_bit 24 (ucast b3) :: 32 word)"
  shows "ucast d = b0" and "ucast (drop_bit 8 d) = b1"
    and "ucast (drop_bit 16 d) = b2" and "ucast (drop_bit 24 d) = b3"
  unfolding d_def
  by (rule bit_word_eqI; auto simp add: bit_simps dest: bit_imp_le_length)+

lemma le16_bytes:
  fixes b0 b1 :: byte
  defines "d \<equiv> (ucast b0 OR push_bit 8 (ucast b1) :: 16 word)"
  shows "ucast d = b0" and "ucast (drop_bit 8 d) = b1"
  unfolding d_def
  by (rule bit_word_eqI; auto simp add: bit_simps dest: bit_imp_le_length)+

lemma split256: "(x::nat) = x mod 256 + 256 * (x div 256)"
  by simp

lemma le32_unat:
  fixes b0 b1 b2 b3 :: byte
  shows "unat (ucast b0 OR push_bit 8 (ucast b1) OR push_bit 16 (ucast b2) OR
               push_bit 24 (ucast b3) :: 32 word)
     = unat b0 + 256 * unat b1 + 65536 * unat b2 + 16777216 * unat b3"
proof -
  define d where "d = (ucast b0 OR push_bit 8 (ucast b1) OR push_bit 16 (ucast b2) OR
                       push_bit 24 (ucast b3) :: 32 word)"
  have b: "ucast d = b0" "ucast (drop_bit 8 d) = b1"
          "ucast (drop_bit 16 d) = b2" "ucast (drop_bit 24 d) = b3"
    unfolding d_def by (rule le32_bytes)+
  have lt: "unat d < 2 ^ 32" using unsigned_less [of d] by simp
  have bv: "unat b0 = unat d mod 256" "unat b1 = unat d div 256 mod 256"
       "unat b2 = unat d div 65536 mod 256" "unat b3 = unat d div 16777216 mod 256"
    unfolding b [symmetric]
    by (simp_all add: unsigned_ucast_eq unat_drop_bit_eq drop_bit_eq_div take_bit_eq_mod
          unat_div_distrib)
  have d1: "unat d div 256 div 256 = unat d div 65536"
    by (simp add: div_mult2_eq [symmetric])
  have d2: "unat d div 65536 div 256 = unat d div 16777216"
    by (simp add: div_mult2_eq [symmetric])
  have d3: "unat d div 16777216 mod 256 = unat d div 16777216"
    using lt by simp
  have e1: "unat d div 256 = unat d div 256 mod 256 + 256 * (unat d div 65536)"
    using split256 [of "unat d div 256"] d1 by simp
  have e2: "unat d div 65536 = unat d div 65536 mod 256 + 256 * (unat d div 16777216)"
    using split256 [of "unat d div 65536"] d2 by simp
  have "unat d = unat d mod 256 + 256 * (unat d div 256 mod 256)
      + 65536 * (unat d div 65536 mod 256) + 16777216 * (unat d div 16777216 mod 256)"
    using split256 [of "unat d"] e1 e2 d3 by linarith
  then show ?thesis
    unfolding d_def [symmetric] bv .
qed

lemma le16_unat:
  fixes b0 b1 :: byte
  shows "unat (ucast b0 OR push_bit 8 (ucast b1) :: 16 word) = unat b0 + 256 * unat b1"
proof -
  define d where "d = (ucast b0 OR push_bit 8 (ucast b1) :: 16 word)"
  have b: "ucast d = b0" "ucast (drop_bit 8 d) = b1"
    unfolding d_def by (rule le16_bytes)+
  have lt: "unat d < 2 ^ 16" using unsigned_less [of d] by simp
  have bv: "unat b0 = unat d mod 256" "unat b1 = unat d div 256 mod 256"
    unfolding b [symmetric]
    by (simp_all add: unsigned_ucast_eq unat_drop_bit_eq drop_bit_eq_div take_bit_eq_mod
          unat_div_distrib)
  have "unat d div 256 mod 256 = unat d div 256"
    using lt by simp
  then have "unat d = unat d mod 256 + 256 * (unat d div 256 mod 256)"
    using split256 [of "unat d"] by simp
  then show ?thesis
    unfolding d_def [symmetric] bv .
qed

lemma length12_cases:
  assumes "length bs = MAX_BUFFER"
  shows "\<exists>b0 b1 b2 b3 b4 b5 b6 b7 b8 b9 b10 b11.
           bs = [b0, b1, b2, b3, b4, b5, b6, b7, b8, b9, b10, b11]"
  using assms by (simp add: MAX_BUFFER_def eval_nat_numeral length_Suc_conv) blast

lemma da_ra:
  assumes "length bs = MAX_BUFFER"
  shows "da (ra bs) = bs"
proof -
  obtain b0 b1 b2 b3 b4 b5 b6 b7 b8 b9 b10 b11
    where bs: "bs = [b0, b1, b2, b3, b4, b5, b6, b7, b8, b9, b10, b11]"
    using length12_cases [OF assms] by blast
  define d where "d = (ucast b1 OR push_bit 8 (ucast b2) OR push_bit 16 (ucast b3) OR
                       push_bit 24 (ucast b4) :: 32 word)"
  define e where "e = (ucast b9 OR push_bit 8 (ucast b10) :: 16 word)"
  have r: "ra bs = \<lparr>bEncoding = b0, ui32Data = d, bNumberOfBitsInTheData = b5,
     bPulseTrainRepeats = b6, bDelayBetweenPulseTrainRepeats = b7, bButtonRepeats = b8,
     ui16DelayBetweenButtonRepeats = e, bFreshData = b11\<rparr>"
    by (simp add: ra_def bs d_def e_def)
  have "ucast d = b1" "ucast (drop_bit 8 d) = b2" "ucast (drop_bit 16 d) = b3"
       "ucast (drop_bit 24 d) = b4" "ucast e = b9" "ucast (drop_bit 8 e) = b10"
    unfolding d_def e_def by (rule le32_bytes le16_bytes)+
  then show ?thesis
    unfolding r by (simp add: da_def bs)
qed

lemma length_da: "length (da f) = MAX_BUFFER"
  by (simp add: da_def MAX_BUFFER_def)

subsection \<open>Traces\<close>

lemma dispatches_Nil [simp]: "dispatches [] = 0"
  by (simp add: dispatches_def)

lemma dispatches_append [simp]: "dispatches (xs @ ys) = dispatches xs + dispatches ys"
  by (simp add: dispatches_def)

lemma dispatches_replicate: "dispatches (concat (replicate n xs)) = n * dispatches xs"
  by (induction n) simp_all

lemma dispatches_irsend: "dispatches (irsend f) = 0"
  by (simp add: dispatches_def irsend_def Let_def)

lemma dispatches_pulse_events: "dispatches (pulse_events f) = 1"
  using dispatches_irsend [of f] by (simp add: dispatches_def pulse_events_def)

lemma dispatches_button_events: "dispatches (button_events f) = unat (bPulseTrainRepeats f)"
  by (simp add: button_events_def dispatches_replicate dispatches_pulse_events)
     (simp add: dispatches_def button_delay_events_def)

lemma dispatches_frame_events:
  "dispatches (frame_events f) = unat (bButtonRepeats f) * unat (bPulseTrainRepeats f)"
  by (simp add: frame_events_def dispatches_replicate dispatches_button_events)

lemma sends_Nil [simp]: "sends [] = []"
  by (simp add: sends_def)

lemma sends_append [simp]: "sends (xs @ ys) = sends xs @ sends ys"
  by (simp add: sends_def)

lemma sends_replicate: "sends (concat (replicate n xs)) = concat (replicate n (sends xs))"
  by (induction n) simp_all

lemma sends_irsend: "sends (irsend f) = irsend f"
  by (simp add: sends_def irsend_def Let_def)

lemma sends_pulse_events: "sends (pulse_events f) = irsend f"
  using sends_irsend [of f] by (simp add: sends_def pulse_events_def)

lemma sends_button_events:
  "sends (button_events f) = concat (replicate (unat (bPulseTrainRepeats f)) (irsend f))"
  by (simp add: button_events_def sends_replicate sends_pulse_events)
     (simp add: sends_def button_delay_events_def)

lemma sends_frame_events:
  "sends (frame_events f) =
     concat (replicate (unat (bButtonRepeats f))
       (concat (replicate (unat (bPulseTrainRepeats f)) (irsend f))))"
  by (simp add: frame_events_def sends_replicate sends_button_events)

lemma concat_replicate_Nil [simp]: "concat (replicate n []) = []"
  by (induction n) simp_all

lemma dispatches_slots_events:
  "dispatches (slots_events arr i n) =
     (\<Sum>k \<leftarrow> [i..<n]. unat (bButtonRepeats (ra (arr ! k))) * unat (bPulseTrainRepeats (ra (arr ! k))))"
proof -
  have "\<And>ks. dispatches (concat (map (\<lambda>k. frame_events (ra (arr ! k))) ks)) =
     (\<Sum>k \<leftarrow> ks. unat (bButtonRepeats (ra (arr ! k))) * unat (bPulseTrainRepeats (ra (arr ! k))))"
  proof -
    fix ks show "dispatches (concat (map (\<lambda>k. frame_events (ra (arr ! k))) ks)) =
     (\<Sum>k \<leftarrow> ks. unat (bButtonRepeats (ra (arr ! k))) * unat (bPulseTrainRepeats (ra (arr ! k))))"
      by (induction ks) (simp_all add: dispatches_frame_events)
  qed
  then show ?thesis by (simp add: slots_events_def)
qed

lemma slots_events_split:
  assumes "k < n"
  shows "slots_events arr 0 n =
     slots_events arr 0 k @ frame_events (ra (arr ! k)) @ slots_events arr (Suc k) n"
proof -
  have "[0..<k + (n - k)] = [0..<k] @ [k..<k + (n - k)]"
    by (rule upt_add_eq_append) simp
  then have "[0..<n] = [0..<k] @ k # [Suc k..<n]"
    using assms by (simp add: upt_conv_Cons)
  then show ?thesis by (simp add: slots_events_def)
qed

lemma concat_replicate_snoc:
  "concat (replicate (Suc n) xs) = concat (replicate n xs) @ xs"
  by (induction n) simp_all

lemma last_concat_replicate:
  assumes "0 < n" and "xs \<noteq> []"
  shows "last (ys @ concat (replicate n xs)) = last xs"
proof -
  obtain m where "n = Suc m" using assms(1) by (cases n) simp_all
  then have "concat (replicate n xs) = concat (replicate m xs) @ xs"
    by (simp only: concat_replicate_snoc)
  then show ?thesis using assms(2) by simp
qed

lemma slots_events_eval:
  "slots_events arr i i = []"
  "slots_events arr (Suc 0) 2 = frame_events (ra (arr ! Suc 0))"
  by (simp_all add: slots_events_def upt_conv_Cons)

lemma replicate_small:
  "replicate 2 x = [x, x]" "replicate 3 x = [x, x, x]"
  by (simp_all add: numeral_2_eq_2 numeral_3_eq_3)


lemma slots_events_take:
  assumes "n \<le> length arr"
  shows "slots_events arr 0 n = concat (map (frame_events \<circ> ra) (take n arr))"
proof -
  have "map (\<lambda>k. frame_events (ra (arr ! k))) [0..<n] = map (frame_events \<circ> ra) (take n arr)"
    using assms by (intro nth_equalityI) simp_all
  then show ?thesis by (simp add: slots_events_def)
qed

subsection \<open>The loops of \<^verbatim>\<open>loop()\<close>\<close>

lemma frame_loop_spec:
  assumes "uiDataArrayPointer s \<le> MAX_SEQUENCES"
  shows "\<exists>jp jb. frame_loop s =
    Some (s\<lparr>iDataArrayIndex := max (iDataArrayIndex s) (uiDataArrayPointer s),
            iPulseTrainRepeats := jp,
            iButtonRepeats := jb,
            trace := trace s @
              slots_events (uDataArray s) (iDataArrayIndex s) (uiDataArrayPointer s)\<rparr>)"
  using assms
proof (induction s rule: frame_loop.induct)
  case (1 s)
  define f where "f = ra (uDataArray s ! iDataArrayIndex s)"
  show ?case
  proof (cases "iDataArrayIndex s < uiDataArrayPointer s")
    case True
    define s1 where "s1 = s\<lparr>iPulseTrainRepeats :=
         (if 0 < unat (bButtonRepeats f) then unat (bPulseTrainRepeats f)
          else iPulseTrainRepeats s),
       iButtonRepeats := unat (bButtonRepeats f),
       trace := trace s @ frame_events f\<rparr>"
    have bl: "button_loop (s\<lparr>iButtonRepeats := 0\<rparr>) = Some s1"
      using button_loop_spec [of "s\<lparr>iButtonRepeats := 0\<rparr>"] True "1.prems"
      by (simp add: s1_def f_def frame_events_def)
    have step: "frame_loop s = frame_loop (s1\<lparr>iDataArrayIndex := iDataArrayIndex s1 + 1\<rparr>)"
      using True bl by (subst frame_loop.simps) simp
    obtain jp jb where ih: "frame_loop (s1\<lparr>iDataArrayIndex := iDataArrayIndex s1 + 1\<rparr>) =
      Some (s1\<lparr>iDataArrayIndex := uiDataArrayPointer s,
            iPulseTrainRepeats := jp,
            iButtonRepeats := jb,
            trace := trace s @ frame_events f @
              slots_events (uDataArray s) (iDataArrayIndex s + 1) (uiDataArrayPointer s)\<rparr>)"
      using "1.IH" [OF True bl] True "1.prems"
      by (auto simp add: s1_def max_def)
    have ev: "slots_events (uDataArray s) (iDataArrayIndex s) (uiDataArrayPointer s) =
        frame_events f @ slots_events (uDataArray s) (iDataArrayIndex s + 1) (uiDataArrayPointer s)"
      using True by (simp add: slots_events_def upt_conv_Cons f_def)
    show ?thesis
      unfolding step ih ev
      using True by (auto simp add: s1_def max_def)
  next
    case False
    have "frame_loop s = Some s"
      using False by (subst frame_loop.simps) simp
    moreover have "slots_events (uDataArray s) (iDataArrayIndex s) (uiDataArrayPointer s) = []"
      using False by (simp add: slots_events_def)
    ultimately have "frame_loop s =
      Some (s\<lparr>iDataArrayIndex := max (iDataArrayIndex s) (uiDataArrayPointer s),
            iPulseTrainRepeats := iPulseTrainRepeats s,
            iButtonRepeats := iButtonRepeats s,
            trace := trace s @
              slots_events (uDataArray s) (iDataArrayIndex s) (uiDataArrayPointer s)\<rparr>)"
      using False by (simp add: max_def)
    then show ?thesis by blast
  qed
qed

lemma loop_idle:
  assumes "current_state s = eIDLE" and "\<not> bFreshDataFlag s"
  shows "loop s = Some s"
  using assms by (simp add: loop_def loop_start_def loop_play_def loop_finish_def)

lemma loop_spec:
  assumes "uiDataArrayPointer s \<le> MAX_SEQUENCES"
    and "current_state s = eIDLE" and "bFreshDataFlag s"
  shows "\<exists>jp jb. loop s =
    Some (s\<lparr>uiDataArrayPointer := 0,
            bFreshDataFlag := False,
            iDataArrayIndex := uiDataArrayPointer s,
            iPulseTrainRepeats := jp,
            iButtonRepeats := jb,
            ready_pin := True,
            trace := trace s @ DigitalWrite False #
              slots_events (uDataArray s) 0 (uiDataArrayPointer s) @ [DigitalWrite True]\<rparr>)"
proof -
  define s0 where "s0 = s\<lparr>current_state := eBUSY, bFreshDataFlag := False,
     iDataArrayIndex := 0, ready_pin := False, trace := trace s @ [DigitalWrite False]\<rparr>"
  have st: "loop_start s = s0"
    using assms by (simp add: loop_start_def digitalWrite_def s0_def)
  obtain jp jb where fl: "frame_loop s0 =
    Some (s0\<lparr>iDataArrayIndex := max (iDataArrayIndex s0) (uiDataArrayPointer s0),
            iPulseTrainRepeats := jp,
            iButtonRepeats := jb,
            trace := trace s0 @
              slots_events (uDataArray s0) (iDataArrayIndex s0) (uiDataArrayPointer s0)\<rparr>)"
    using frame_loop_spec [of s0] assms(1) by (auto simp add: s0_def)
  have "loop s =
    Some (s\<lparr>uiDataArrayPointer := 0,
            bFreshDataFlag := False,
            iDataArrayIndex := uiDataArrayPointer s,
            iPulseTrainRepeats := jp,
            iButtonRepeats := jb,
            ready_pin := True,
            trace := trace s @ DigitalWrite False #
              slots_events (uDataArray s) 0 (uiDataArrayPointer s) @ [DigitalWrite True]\<rparr>)"
    unfolding loop_def st loop_play_def
    using fl assms(2)
    by (simp add: s0_def loop_finish_def digitalWrite_def)
  then show ?thesis by blast
qed

lemma loop_plays_slot:
  assumes "uiDataArrayPointer s \<le> MAX_SEQUENCES"
    and "current_state s = eIDLE" and "bFreshDataFlag s"
    and "k < uiDataArrayPointer s"
  shows "\<exists>s'. loop s = Some s' \<and>
     trace s' = trace s @ [DigitalWrite False] @ slots_events (uDataArray s) 0 k @
        frame_events (ra (uDataArray s ! k)) @
        slots_events (uDataArray s) (Suc k) (uiDataArrayPointer s) @ [DigitalWrite True] \<and>
     current_state s' = eIDLE \<and> uiDataArrayPointer s' = 0 \<and>
     iDataArrayIndex s' = uiDataArrayPointer s \<and> ready_pin s' \<and> \<not> bFreshDataFlag s' \<and>
     uDataArray s' = uDataArray s"
proof -
  obtain jp jb where "loop s =
    Some (s\<lparr>uiDataArrayPointer := 0,
            bFreshDataFlag := False,
            iDataArrayIndex := uiDataArrayPointer s,
            iPulseTrainRepeats := jp,
            iButtonRepeats := jb,
            ready_pin := True,
            trace := trace s @ DigitalWrite False #
              slots_events (uDataArray s) 0 (uiDataArrayPointer s) @ [DigitalWrite True]\<rparr>)"
    using loop_spec [OF assms(1-3)] by blast
  then show ?thesis
    using assms(2) by (simp add: slots_events_split [OF assms(4)])
qed


lemma loop_after_batch:
  assumes "wf_state t" and "current_state t = eIDLE"
  shows "\<exists>v. loop t = Some v \<and>
     drop (length (trace t)) (trace v) =
       (if bFreshDataFlag t
        then DigitalWrite False #
          concat (map (frame_events \<circ> ra) (take (uiDataArrayPointer t) (uDataArray t))) @
          [DigitalWrite True]
        else []) \<and>
     current_state v = eIDLE \<and>
     uiDataArrayPointer v = (if bFreshDataFlag t then 0 else uiDataArrayPointer t)"
proof (cases "bFreshDataFlag t")
  case True
  have p: "uiDataArrayPointer t \<le> MAX_SEQUENCES" "uiDataArrayPointer t \<le> length (uDataArray t)"
    using assms(1) by (simp_all add: wf_state_def)
  obtain jp jb where "loop t =
    Some (t\<lparr>uiDataArrayPointer := 0,
            bFreshDataFlag := False,
            iDataArrayIndex := uiDataArrayPointer t,
            iPulseTrainRepeats := jp,
            iButtonRepeats := jb,
            ready_pin := True,
            trace := trace t @ DigitalWrite False #
              slots_events (uDataArray t) 0 (uiDataArrayPointer t) @ [DigitalWrite True]\<rparr>)"
    using loop_spec [OF p(1) assms(2) True] by blast
  then show ?thesis
    using True assms(2) by (simp add: slots_events_take [OF p(2)])
next
  case False
  then show ?thesis
    using loop_idle [OF assms(2) False] assms(2) by simp
qed

lemma loop_finish_busy:
  assumes "current_state u = eBUSY" and "uiDataArrayPointer u \<le> iDataArrayIndex u"
  shows "loop_finish u = u\<lparr>current_state := eIDLE, uiDataArrayPointer := 0,
               ready_pin := True, trace := trace u @ [DigitalWrite True]\<rparr>"
  using assms by (simp add: loop_finish_def digitalWrite_def)

subsection \<open>The loops of \<^verbatim>\<open>receiveEvent()\<close>\<close>

lemma read_loop_spec:
  assumes "uiDataArrayPointer s < MAX_SEQUENCES"
    and "length (uDataArray s) = MAX_SEQUENCES"
    and "length (uDataArray s ! uiDataArrayPointer s) = MAX_BUFFER"
    and "rxBuffer s = bs @ rest"
    and "howMany - x = int (length bs)"
    and "uiRegisterPointer s + length bs \<le> MAX_BUFFER"
  shows "read_loop x howMany s =
    Some (s\<lparr>uDataArray := (uDataArray s)
              [uiDataArrayPointer s :=
                 take (uiRegisterPointer s) (uDataArray s ! uiDataArrayPointer s) @ bs @
                 drop (uiRegisterPointer s + length bs) (uDataArray s ! uiDataArrayPointer s)],
            uiRegisterPointer := uiRegisterPointer s + length bs,
            rxBuffer := rest\<rparr>)"
  using assms
proof (induction bs arbitrary: x s)
  case Nil
  have "read_loop x howMany s = Some s"
    using Nil.prems by (subst read_loop.simps) simp
  moreover have "s\<lparr>uDataArray := (uDataArray s)
              [uiDataArrayPointer s := uDataArray s ! uiDataArrayPointer s],
            uiRegisterPointer := uiRegisterPointer s, rxBuffer := rest\<rparr> = s"
    using Nil.prems by simp
  ultimately show ?case by simp
next
  case (Cons b bs)
  define p where "p = uiDataArrayPointer s"
  define r where "r = uiRegisterPointer s"
  define old where "old = uDataArray s ! p"
  define s2 where "s2 = s\<lparr>rxBuffer := bs @ rest,
     uDataArray := (uDataArray s)[p := old[r := b]], uiRegisterPointer := r + 1\<rparr>"
  have r: "r < MAX_BUFFER" "r < length old"
    using Cons.prems by (simp_all add: r_def old_def p_def)
  have rd: "Wire_read s = (uint b, s\<lparr>rxBuffer := bs @ rest\<rparr>)"
    using Cons.prems by (simp add: Wire_read_def)
  have wr: "da_write b (s\<lparr>rxBuffer := bs @ rest\<rparr>) =
      Some (s\<lparr>rxBuffer := bs @ rest, uDataArray := (uDataArray s)[p := old[r := b]]\<rparr>)"
    using Cons.prems r by (simp add: da_write_def p_def r_def old_def)
  have step: "read_loop x howMany s = read_loop (x + 1) howMany s2"
    using Cons.prems rd wr by (subst read_loop.simps) (simp add: s2_def r_def)
  have ih: "read_loop (x + 1) howMany s2 =
    Some (s2\<lparr>uDataArray := (uDataArray s2)
              [uiDataArrayPointer s2 :=
                 take (uiRegisterPointer s2) (uDataArray s2 ! uiDataArrayPointer s2) @ bs @
                 drop (uiRegisterPointer s2 + length bs) (uDataArray s2 ! uiDataArrayPointer s2)],
            uiRegisterPointer := uiRegisterPointer s2 + length bs,
            rxBuffer := rest\<rparr>)"
    using Cons.prems r by (intro Cons.IH) (simp_all add: s2_def p_def r_def old_def)
  have t: "take (r + 1) (old[r := b]) = take r old @ [b]"
    using r by (simp add: take_Suc_conv_app_nth)
  show ?case
    unfolding step ih
    using Cons.prems r t
    by (simp add: s2_def p_def [symmetric] r_def [symmetric] old_def [symmetric])
qed

lemma wf_state_slot:
  assumes "wf_state s" and "i < MAX_SEQUENCES"
  shows "length (uDataArray s ! i) = MAX_BUFFER"
  using assms by (simp add: wf_state_def list_all_length)

lemma onReceive_frame:
  assumes "wf_state s" and "length bs = MAX_BUFFER"
  shows "onReceive bs s =
    Some (s\<lparr>uDataArray := (uDataArray s)[uiDataArrayPointer s := bs],
            uiRegisterPointer := MAX_BUFFER,
            uiDataArrayPointer :=
              (if uiDataArrayPointer s < MAX_SEQUENCES - 1
               then uiDataArrayPointer s + 1 else uiDataArrayPointer s),
            bFreshDataFlag := (bFreshDataFlag s \<or> bs ! 11 \<noteq> 0),
            rxBuffer := []\<rparr>)"
proof -
  define s0 where "s0 = s\<lparr>rxBuffer := bs, uiRegisterPointer := 0\<rparr>"
  define s1 where "s1 = s\<lparr>uDataArray := (uDataArray s)[uiDataArrayPointer s := bs],
     uiRegisterPointer := MAX_BUFFER, rxBuffer := []\<rparr>"
  have p: "uiDataArrayPointer s < MAX_SEQUENCES" "length (uDataArray s) = MAX_SEQUENCES"
    using assms(1) by (simp_all add: wf_state_def)
  have len: "length (uDataArray s ! uiDataArrayPointer s) = MAX_BUFFER"
    using wf_state_slot [OF assms(1) p(1)] .
  have "read_loop 0 (int MAX_BUFFER) s0 =
    Some (s0\<lparr>uDataArray := (uDataArray s0)
              [uiDataArrayPointer s0 :=
                 take (uiRegisterPointer s0) (uDataArray s0 ! uiDataArrayPointer s0) @ bs @
                 drop (uiRegisterPointer s0 + length bs) (uDataArray s0 ! uiDataArrayPointer s0)],
            uiRegisterPointer := uiRegisterPointer s0 + length bs,
            rxBuffer := []\<rparr>)"
    using p len assms(2) by (intro read_loop_spec) (simp_all add: s0_def)
  then have rl: "read_loop 0 (int MAX_BUFFER) s0 = Some s1"
    using len assms(2) by (simp add: s0_def s1_def)
  have rd: "uDataArray_ra s1 (uiDataArrayPointer s1) = Some (ra bs)"
    using p by (simp add: uDataArray_ra_def s1_def)
  have fresh: "bFreshData (ra bs) = bs ! 11"
    by (simp add: ra_def)
  have "0 < int MAX_BUFFER"
    by (simp add: MAX_BUFFER_def)
  then show ?thesis
    using rl rd fresh assms(2)
    by (simp add: onReceive_def receiveEvent_def s0_def [symmetric] Let_def)
       (simp add: s1_def)
qed

lemma drain_loop_spec:
  "drain_loop x howMany s = s\<lparr>rxBuffer := drop (nat (howMany - 1 - x)) (rxBuffer s)\<rparr>"
proof (induction x howMany s rule: drain_loop.induct)
  case (1 x howMany s)
  show ?case
  proof (cases "x < howMany - 1")
    case True
    have rd: "snd (Wire_read s) = s\<lparr>rxBuffer := drop 1 (rxBuffer s)\<rparr>"
      by (cases "rxBuffer s") (simp_all add: Wire_read_def)
    have n: "nat (howMany - 1 - x) = Suc (nat (howMany - 1 - (x + 1)))"
      using True by simp
    have "drain_loop x howMany s = drain_loop (x + 1) howMany (snd (Wire_read s))"
      using True by (subst drain_loop.simps) simp
    then show ?thesis
      unfolding n using "1.IH" [OF True] rd by (simp add: drop_Suc drop_tl)
  next
    case False
    then have "drain_loop x howMany s = s"
      by (subst drain_loop.simps) simp
    then show ?thesis using False by simp
  qed
qed

lemma onReceive_malformed:
  assumes "length bs \<noteq> MAX_BUFFER"
  shows "onReceive bs s = Some (s\<lparr>rxBuffer := drop (length bs - 1) bs\<rparr>)"
proof -
  have "nat (int (length bs) - 1 - 0) = length bs - 1" by simp
  then show ?thesis
    using assms by (simp add: onReceive_def receiveEvent_def drain_loop_spec)
qed

lemma onReceive_wf:
  assumes "wf_state s"
  shows "\<exists>s1. onReceive bs s = Some s1 \<and> wf_state s1"
proof (cases "length bs = MAX_BUFFER")
  case True
  have "list_all (\<lambda>slot. length slot = MAX_BUFFER) ((uDataArray s)[uiDataArrayPointer s := bs])"
    using assms True by (auto simp add: wf_state_def list_all_length nth_list_update)
  then show ?thesis
    using assms True by (simp add: onReceive_frame) (simp add: wf_state_def MAX_SEQUENCES_def)
next
  case False
  then show ?thesis
    using assms by (simp add: onReceive_malformed wf_state_def)
qed

lemma wf_state_setup: "wf_state setup_fn"
  by (simp add: wf_state_def setup_fn_def list_all_length MAX_SEQUENCES_def)

lemma onReceive_all_spec:
  assumes "wf_state s" and "list_all (\<lambda>bs. length bs = MAX_BUFFER) bss"
  shows "\<exists>t. onReceive_all bss s = Some t \<and> wf_state t \<and>
     uiDataArrayPointer t = min (uiDataArrayPointer s + length bss) (MAX_SEQUENCES - 1) \<and>
     bFreshDataFlag t = (bFreshDataFlag s \<or> list_ex fresh bss) \<and>
     (\<forall>i < uiDataArrayPointer s. uDataArray t ! i = uDataArray s ! i) \<and>
     (\<forall>k < length bss. uiDataArrayPointer s + k < MAX_SEQUENCES - 1 \<longrightarrow>
         uDataArray t ! (uiDataArrayPointer s + k) = bss ! k) \<and>
     (bss \<noteq> [] \<and> MAX_SEQUENCES - 1 < uiDataArrayPointer s + length bss \<longrightarrow>
         uDataArray t ! (MAX_SEQUENCES - 1) = last bss) \<and>
     current_state t = current_state s \<and> ready_pin t = ready_pin s \<and>
     trace t = trace s \<and> iDataArrayIndex t = iDataArrayIndex s"
  using assms
proof (induction bss arbitrary: s)
  case Nil
  then show ?case by (simp add: wf_state_def MAX_SEQUENCES_def)
next
  case (Cons bs bss)
  define p where "p = uiDataArrayPointer s"
  define s1 where "s1 = s\<lparr>uDataArray := (uDataArray s)[p := bs],
            uiRegisterPointer := MAX_BUFFER,
            uiDataArrayPointer := (if p < MAX_SEQUENCES - 1 then p + 1 else p),
            bFreshDataFlag := (bFreshDataFlag s \<or> bs ! 11 \<noteq> 0),
            rxBuffer := []\<rparr>"
  have len: "length bs = MAX_BUFFER" and rest: "list_all (\<lambda>bs. length bs = MAX_BUFFER) bss"
    using Cons.prems(2) by simp_all
  have p: "p < MAX_SEQUENCES" "length (uDataArray s) = MAX_SEQUENCES"
    using Cons.prems(1) by (simp_all add: wf_state_def p_def)
  have r1: "onReceive bs s = Some s1"
    using onReceive_frame [OF Cons.prems(1) len] by (simp add: s1_def p_def)
  have wf1: "wf_state s1"
    using onReceive_wf [OF Cons.prems(1), of bs] r1 by simp
  obtain t where t: "onReceive_all bss s1 = Some t" "wf_state t"
     "uiDataArrayPointer t = min (uiDataArrayPointer s1 + length bss) (MAX_SEQUENCES - 1)"
     "bFreshDataFlag t = (bFreshDataFlag s1 \<or> list_ex fresh bss)"
     "\<forall>i < uiDataArrayPointer s1. uDataArray t ! i = uDataArray s1 ! i"
     "\<forall>k < length bss. uiDataArrayPointer s1 + k < MAX_SEQUENCES - 1 \<longrightarrow>
         uDataArray t ! (uiDataArrayPointer s1 + k) = bss ! k"
     "bss \<noteq> [] \<and> MAX_SEQUENCES - 1 < uiDataArrayPointer s1 + length bss \<longrightarrow>
         uDataArray t ! (MAX_SEQUENCES - 1) = last bss"
     "current_state t = current_state s1" "ready_pin t = ready_pin s1"
     "trace t = trace s1" "iDataArrayIndex t = iDataArrayIndex s1"
    using Cons.IH [OF wf1 rest] by blast
  have p1: "uiDataArrayPointer s1 = (if p < MAX_SEQUENCES - 1 then p + 1 else p)"
    by (simp add: s1_def)
  have a1: "uDataArray s1 = (uDataArray s)[p := bs]"
    by (simp add: s1_def)
  have c1: "onReceive_all (bs # bss) s = Some t"
    using r1 t(1) by simp
  have c3: "uiDataArrayPointer t = min (p + length (bs # bss)) (MAX_SEQUENCES - 1)"
    using t(3) p by (simp add: p1 MAX_SEQUENCES_def)
  have c4: "bFreshDataFlag t = (bFreshDataFlag s \<or> list_ex fresh (bs # bss))"
    using t(4) by (auto simp add: s1_def fresh_def ra_def)
  have c5: "\<forall>i < p. uDataArray t ! i = uDataArray s ! i"
    using t(5) by (auto simp add: p1 a1)
  have c6: "\<forall>k < length (bs # bss). p + k < MAX_SEQUENCES - 1 \<longrightarrow>
         uDataArray t ! (p + k) = (bs # bss) ! k"
  proof (intro allI impI)
    fix k assume k: "k < length (bs # bss)" and pk: "p + k < MAX_SEQUENCES - 1"
    show "uDataArray t ! (p + k) = (bs # bss) ! k"
    proof (cases k)
      case 0
      then show ?thesis using t(5) pk p by (simp add: p1 a1)
    next
      case (Suc j)
      then show ?thesis using t(6) pk k by (simp add: p1)
    qed
  qed
  have c7: "MAX_SEQUENCES - 1 < p + length (bs # bss) \<longrightarrow>
         uDataArray t ! (MAX_SEQUENCES - 1) = last (bs # bss)"
  proof (intro impI, cases "bss = []")
    case True
    assume "MAX_SEQUENCES - 1 < p + length (bs # bss)"
    then have "p = MAX_SEQUENCES - 1" using p True by simp
    moreover have "t = s1" using True t(1) by simp
    ultimately show "uDataArray t ! (MAX_SEQUENCES - 1) = last (bs # bss)"
      using True p a1 by simp
  next
    case False
    assume "MAX_SEQUENCES - 1 < p + length (bs # bss)"
    then have "MAX_SEQUENCES - 1 < uiDataArrayPointer s1 + length bss"
      using p False by (cases bss) (auto simp add: p1)
    then show "uDataArray t ! (MAX_SEQUENCES - 1) = last (bs # bss)"
      using False t(7) by simp
  qed
  show ?case
    unfolding p_def [symmetric]
    using c1 t(2) c3 c4 c5 c6 c7 t(8-11) by (simp add: s1_def)
qed

lemma onReceive_all_queue:
  assumes "wf_state s" and "uiDataArrayPointer s = 0"
    and "list_all (\<lambda>bs. length bs = MAX_BUFFER) bss"
  shows "\<exists>t. onReceive_all bss s = Some t \<and> wf_state t \<and>
     uiDataArrayPointer t = min (length bss) (MAX_SEQUENCES - 1) \<and>
     bFreshDataFlag t = (bFreshDataFlag s \<or> list_ex fresh bss) \<and>
     take (uiDataArrayPointer t) (uDataArray t) = take (MAX_SEQUENCES - 1) bss \<and>
     (MAX_SEQUENCES \<le> length bss \<longrightarrow> uDataArray t ! (MAX_SEQUENCES - 1) = last bss) \<and>
     current_state t = current_state s \<and> ready_pin t = ready_pin s \<and>
     trace t = trace s \<and> iDataArrayIndex t = iDataArrayIndex s"
proof -
  obtain t where t: "onReceive_all bss s = Some t" "wf_state t"
     "uiDataArrayPointer t = min (uiDataArrayPointer s + length bss) (MAX_SEQUENCES - 1)"
     "bFreshDataFlag t = (bFreshDataFlag s \<or> list_ex fresh bss)"
     "\<forall>k < length bss. uiDataArrayPointer s + k < MAX_SEQUENCES - 1 \<longrightarrow>
         uDataArray t ! (uiDataArrayPointer s + k) = bss ! k"
     "bss \<noteq> [] \<and> MAX_SEQUENCES - 1 < uiDataArrayPointer s + length bss \<longrightarrow>
         uDataArray t ! (MAX_SEQUENCES - 1) = last bss"
     "current_state t = current_state s" "ready_pin t = ready_pin s"
     "trace t = trace s" "iDataArrayIndex t = iDataArrayIndex s"
    using onReceive_all_spec [OF assms(1,3)] by blast
  have len: "length (uDataArray t) = MAX_SEQUENCES"
    using t(2) by (simp add: wf_state_def)
  have p: "uiDataArrayPointer t = min (length bss) (MAX_SEQUENCES - 1)"
    using t(3) assms(2) by simp
  have l: "length (take (uiDataArrayPointer t) (uDataArray t)) = length (take (MAX_SEQUENCES - 1) bss)"
    using len p by (simp add: min_def MAX_SEQUENCES_def)
  have "\<forall>i < length (take (uiDataArrayPointer t) (uDataArray t)).
      take (uiDataArrayPointer t) (uDataArray t) ! i = take (MAX_SEQUENCES - 1) bss ! i"
    using t(5) assms(2) p len by simp
  with l have "take (uiDataArrayPointer t) (uDataArray t) = take (MAX_SEQUENCES - 1) bss"
    by (simp only: list_eq_iff_nth_eq)
  moreover have "MAX_SEQUENCES \<le> length bss \<longrightarrow> uDataArray t ! (MAX_SEQUENCES - 1) = last bss"
    using t(6) assms(2) by (auto simp add: MAX_SEQUENCES_def)
  ultimately show ?thesis
    using t p by blast
qed

lemma onReceive_all_single: "onReceive_all [bs] s = onReceive bs s"
  by (cases "onReceive bs s") simp_all

lemma append_as_fresh:
  assumes "wf_state r" and "current_state r = eIDLE" and "uiDataArrayPointer r = 0"
    and "\<not> bFreshDataFlag r" and "ready_pin r"
    and "list_all (\<lambda>bs. length bs = MAX_BUFFER) bss"
  shows "\<exists>t t0. onReceive_all bss r = Some t \<and> onReceive_all bss setup_fn = Some t0 \<and>
               uiDataArrayPointer t = uiDataArrayPointer t0 \<and>
               bFreshDataFlag t = bFreshDataFlag t0 \<and>
               current_state t = current_state t0 \<and> ready_pin t = ready_pin t0 \<and>
               take (uiDataArrayPointer t) (uDataArray t) =
                 take (uiDataArrayPointer t0) (uDataArray t0) \<and>
               (\<exists>v v0. loop t = Some v \<and> loop t0 = Some v0 \<and>
                  drop (length (trace t)) (trace v) = drop (length (trace t0)) (trace v0) \<and>
                  current_state v = current_state v0 \<and>
                  uiDataArrayPointer v = uiDataArrayPointer v0)"
proof -
  obtain t where t: "onReceive_all bss r = Some t" "wf_state t"
     "uiDataArrayPointer t = min (length bss) (MAX_SEQUENCES - 1)"
     "bFreshDataFlag t = (bFreshDataFlag r \<or> list_ex fresh bss)"
     "take (uiDataArrayPointer t) (uDataArray t) = take (MAX_SEQUENCES - 1) bss"
     "current_state t = current_state r" "ready_pin t = ready_pin r"
    using onReceive_all_queue [OF assms(1,3,6)] by blast
  have i0: "uiDataArrayPointer setup_fn = 0" "\<not> bFreshDataFlag setup_fn"
     "current_state setup_fn = eIDLE" "ready_pin setup_fn"
    by (simp_all add: setup_fn_def)
  obtain t0 where t0: "onReceive_all bss setup_fn = Some t0" "wf_state t0"
     "uiDataArrayPointer t0 = min (length bss) (MAX_SEQUENCES - 1)"
     "bFreshDataFlag t0 = (bFreshDataFlag setup_fn \<or> list_ex fresh bss)"
     "take (uiDataArrayPointer t0) (uDataArray t0) = take (MAX_SEQUENCES - 1) bss"
     "current_state t0 = current_state setup_fn" "ready_pin t0 = ready_pin setup_fn"
    using onReceive_all_queue [OF wf_state_setup i0(1) assms(6)] by blast
  have same: "uiDataArrayPointer t = uiDataArrayPointer t0"
     "bFreshDataFlag t = bFreshDataFlag t0" "current_state t = current_state t0"
     "ready_pin t = ready_pin t0"
     "take (uiDataArrayPointer t) (uDataArray t) = take (uiDataArrayPointer t0) (uDataArray t0)"
    using t t0 assms(2,4,5) i0 by simp_all
  have idle: "current_state t = eIDLE" "current_state t0 = eIDLE"
    using t(6) t0(6) assms(2) i0(3) by simp_all
  obtain v where v: "loop t = Some v"
     "drop (length (trace t)) (trace v) =
       (if bFreshDataFlag t
        then DigitalWrite False #
          concat (map (frame_events \<circ> ra) (take (uiDataArrayPointer t) (uDataArray t))) @
          [DigitalWrite True]
        else [])"
     "current_state v = eIDLE"
     "uiDataArrayPointer v = (if bFreshDataFlag t then 0 else uiDataArrayPointer t)"
    using loop_after_batch [OF t(2) idle(1)] by blast
  obtain v0 where v0: "loop t0 = Some v0"
     "drop (length (trace t0)) (trace v0) =
       (if bFreshDataFlag t0
        then DigitalWrite False #
          concat (map (frame_events \<circ> ra) (take (uiDataArrayPointer t0) (uDataArray t0))) @
          [DigitalWrite True]
        else [])"
     "current_state v0 = eIDLE"
     "uiDataArrayPointer v0 = (if bFreshDataFlag t0 then 0 else uiDataArrayPointer t0)"
    using loop_after_batch [OF t0(2) idle(2)] by blast
  show ?thesis
  proof (intro exI conjI)
    show "onReceive_all bss r = Some t" by (rule t(1))
    show "onReceive_all bss setup_fn = Some t0" by (rule t0(1))
    show "uiDataArrayPointer t = uiDataArrayPointer t0" by (rule same(1))
    show "bFreshDataFlag t = bFreshDataFlag t0" by (rule same(2))
    show "current_state t = current_state t0" by (rule same(3))
    show "ready_pin t = ready_pin t0" by (rule same(4))
    show "take (uiDataArrayPointer t) (uDataArray t) =
                 take (uiDataArrayPointer t0) (uDataArray t0)" by (rule same(5))
    show "loop t = Some v" by (rule v(1))
    show "loop t0 = Some v0" by (rule v0(1))
    show "drop (length (trace t)) (trace v) = drop (length (trace t0)) (trace v0)"
      using same(1,2,5) by (simp add: v(2) v0(2))
    show "current_state v = current_state v0"
      using v(3) v0(3) by simp
    show "uiDataArrayPointer v = uiDataArrayPointer v0"
      using same(1,2) by (simp add: v(4) v0(4))
  qed
qed

subsection \<open>The example key presses\<close>

lemma example_key_ra:
  "ra example_key = \<lparr>bEncoding = 0, ui32Data = 0xC05C01, bNumberOfBitsInTheData = 24,
     bPulseTrainRepeats = 3, bDelayBetweenPulseTrainRepeats = 124, bButtonRepeats = 2,
     ui16DelayBetweenButtonRepeats = 400, bFreshData = 0xFF\<rparr>"
  by (simp add: ra_def example_key_def)

lemma example_state_reached: "onReceive_all [example_key] setup_fn = Some example_state"
proof -
  have "length example_key = MAX_BUFFER"
    by (simp add: example_key_def MAX_BUFFER_def)
  from onReceive_frame [OF wf_state_setup this] show ?thesis
    by (simp add: example_state_def setup_fn_def MAX_SEQUENCES_def MAX_BUFFER_def)
       (simp add: example_key_def)
qed

lemma example_state_slot: "ra (uDataArray example_state ! 0) = ra example_key"
  by (simp add: example_state_def setup_fn_def MAX_SEQUENCES_def)

lemma example_state_wf: "wf_state example_state"
  using onReceive_wf [OF wf_state_setup, of example_key] example_state_reached by auto

lemma example_played_reached: "loop_play (loop_start example_state) = Some example_played"
proof -
  define s0 where "s0 = example_state\<lparr>current_state := eBUSY, bFreshDataFlag := False,
     iDataArrayIndex := 0, ready_pin := False,
     trace := trace example_state @ [DigitalWrite False]\<rparr>"
  have i: "current_state example_state = eIDLE" "bFreshDataFlag example_state"
     "uiDataArrayPointer example_state = 1"
    by (simp_all add: example_state_def setup_fn_def)
  have st: "loop_start example_state = s0"
    using i by (simp add: loop_start_def digitalWrite_def s0_def)
  have f: "ra (uDataArray s0 ! 0) = ra example_key"
    by (simp add: s0_def example_state_slot)
  have n: "unat (bButtonRepeats (ra example_key)) = 2"
     "unat (bPulseTrainRepeats (ra example_key)) = 3"
    by (simp_all add: example_key_ra)
  define s1 where "s1 = s0\<lparr>iPulseTrainRepeats := 3, iButtonRepeats := 2,
     trace := trace s0 @ frame_events (ra example_key)\<rparr>"
  have bl: "button_loop (s0\<lparr>iButtonRepeats := 0\<rparr>) = Some s1"
    using button_loop_spec [of "s0\<lparr>iButtonRepeats := 0\<rparr>"] f n
    by (simp add: s0_def s1_def MAX_SEQUENCES_def frame_events_def)
  have "frame_loop s0 = frame_loop (s1\<lparr>iDataArrayIndex := iDataArrayIndex s1 + 1\<rparr>)"
    using bl i by (subst frame_loop.simps) (simp add: s0_def)
  also have "\<dots> = Some (s1\<lparr>iDataArrayIndex := iDataArrayIndex s1 + 1\<rparr>)"
    using i by (subst frame_loop.simps) (simp add: s1_def s0_def)
  finally have "frame_loop s0 = Some example_played"
    by (simp add: s1_def s0_def example_played_def)
  then show ?thesis
    unfolding st by (simp add: loop_play_def s0_def)
qed

lemma queue2_reached:
  assumes "length k1 = MAX_BUFFER" and "length k2 = MAX_BUFFER"
  shows "onReceive_all [k1, k2] setup_fn = Some (queue2 k1 k2)"
proof -
  define s1 where "s1 = setup_fn\<lparr>uDataArray := (uDataArray setup_fn)[0 := k1],
     uiRegisterPointer := 12, uiDataArrayPointer := 1, bFreshDataFlag := fresh k1\<rparr>"
  have r1: "onReceive k1 setup_fn = Some s1"
    using onReceive_frame [OF wf_state_setup assms(1)]
    by (simp add: s1_def setup_fn_def MAX_SEQUENCES_def MAX_BUFFER_def fresh_def ra_def)
  have "wf_state s1"
    using onReceive_wf [OF wf_state_setup, of k1] r1 by simp
  from onReceive_frame [OF this assms(2)] have "onReceive k2 s1 = Some (queue2 k1 k2)"
    by (simp add: s1_def queue2_def setup_fn_def MAX_SEQUENCES_def MAX_BUFFER_def fresh_def ra_def)
  then show ?thesis
    using r1 by simp
qed

lemma queue2_fields:
  "uiDataArrayPointer (queue2 k1 k2) = 2" "current_state (queue2 k1 k2) = eIDLE"
  "uDataArray (queue2 k1 k2) ! 0 = k1" "uDataArray (queue2 k1 k2) ! 1 = k2"
  "uDataArray (queue2 k1 k2) ! Suc 0 = k2"
  "bFreshDataFlag (queue2 k1 k2) = (fresh k1 \<or> fresh k2)"
  by (simp_all add: queue2_def setup_fn_def MAX_SEQUENCES_def)

lemma example_odd_key_ra:
  "ra example_odd_key = \<lparr>bEncoding = 9, ui32Data = 0x140C, bNumberOfBitsInTheData = 15,
     bPulseTrainRepeats = 2, bDelayBetweenPulseTrainRepeats = 22, bButtonRepeats = 1,
     ui16DelayBetweenButtonRepeats = 0, bFreshData = 0\<rparr>"
  by (simp add: ra_def example_odd_key_def)

lemma example_zero_key_ra:
  "ra example_zero_key = \<lparr>bEncoding = 1, ui32Data = 0x140C, bNumberOfBitsInTheData = 15,
     bPulseTrainRepeats = 4, bDelayBetweenPulseTrainRepeats = 22, bButtonRepeats = 0,
     ui16DelayBetweenButtonRepeats = 400, bFreshData = 0\<rparr>"
  by (simp add: ra_def example_zero_key_def)

lemma example_wait_key_ra:
  "ra example_wait_key = \<lparr>bEncoding = 1, ui32Data = 0x140C, bNumberOfBitsInTheData = 15,
     bPulseTrainRepeats = 0, bDelayBetweenPulseTrainRepeats = 22, bButtonRepeats = 2,
     ui16DelayBetweenButtonRepeats = 400, bFreshData = 0\<rparr>"
  by (simp add: ra_def example_wait_key_def)

lemma example_zero_key_events: "frame_events (ra example_zero_key) = []"
  unfolding example_zero_key_ra by (simp add: frame_events_def)

lemma example_key_events:
  "frame_events (ra example_key) =
       [Switch 0, SendRC6 0xC05C01 24, Delay 124,
        Switch 0, SendRC6 0xC05C01 24, Delay 124,
        Switch 0, SendRC6 0xC05C01 24, Delay 124,
        Delay 400,
        Switch 0, SendRC6 0xC05C01 24, Delay 124,
        Switch 0, SendRC6 0xC05C01 24, Delay 124,
        Switch 0, SendRC6 0xC05C01 24, Delay 124,
        Delay 400]"
proof -
  show ?thesis
    unfolding example_key_ra
    by (simp add: frame_events_def button_events_def pulse_events_def button_delay_events_def
          irsend_def ENCODING_TYPE_RC6_def replicate_small)
qed

lemma example_lengths:
  "length example_key = MAX_BUFFER" "length example_zero_key = MAX_BUFFER"
  "length example_odd_key = MAX_BUFFER"
  by (simp_all add: example_key_def example_zero_key_def example_odd_key_def MAX_BUFFER_def)

lemma example_fresh:
  "fresh example_key" "\<not> fresh example_zero_key" "\<not> fresh example_odd_key"
  by (simp_all add: fresh_def example_key_ra example_zero_key_ra example_odd_key_ra)

lemma example_odd_key_events:
  "frame_events (ra example_odd_key) = [Switch 9, Delay 22, Switch 9, Delay 22]"
  unfolding example_odd_key_ra
  by (simp add: frame_events_def button_events_def pulse_events_def button_delay_events_def
        irsend_def ENCODING_TYPE_RC6_def ENCODING_TYPE_SONY_def ENCODING_TYPE_SAMSUNG_def
        ENCODING_TYPE_NEC_def ENCODING_TYPE_LG_def replicate_small)

section \<open>The properties of the specification\<close>

text \<open>
  C1: the playback of a slot runs the encoder dispatch \<^verbatim>\<open>bButtonRepeats\<close> times
  \<^verbatim>\<open>bPulseTrainRepeats\<close> times. With 3 pulse trains and 2 button repeats these are 6
  dispatches, each followed by the delay between pulse trains, and the delay between
  button repeats comes after the third and after the sixth. A whole batch makes the sum
  of these products over its slots.
\<close>

theorem dispatch_count:
  assumes "iDataArrayIndex s < MAX_SEQUENCES"
    and "f = ra (uDataArray s ! iDataArrayIndex s)"
    and "P = Switch (bEncoding f) # irsend f @ [Delay (unat (bDelayBetweenPulseTrainRepeats f))]"
    and "D = (if 0 < ui16DelayBetweenButtonRepeats f
              then [Delay (unat (ui16DelayBetweenButtonRepeats f))] else [])"
  shows "(\<exists>s1 evs. button_loop (s\<lparr>iButtonRepeats := 0\<rparr>) = Some s1 \<and>
            trace s1 = trace s @ evs \<and>
            dispatches evs = unat (bButtonRepeats f) * unat (bPulseTrainRepeats f) \<and>
            (bPulseTrainRepeats f = 3 \<and> bButtonRepeats f = 2 \<longrightarrow>
               dispatches evs = 6 \<and> evs = P @ P @ P @ D @ P @ P @ P @ D)) \<and>
         (uiDataArrayPointer s \<le> MAX_SEQUENCES \<and> current_state s = eIDLE \<and> bFreshDataFlag s \<longrightarrow>
            (\<exists>s2 evs. loop s = Some s2 \<and>
               trace s2 = trace s @ [DigitalWrite False] @ evs @ [DigitalWrite True] \<and>
               dispatches evs =
                 (\<Sum>k \<leftarrow> [0..<uiDataArrayPointer s].
                    unat (bButtonRepeats (ra (uDataArray s ! k))) *
                    unat (bPulseTrainRepeats (ra (uDataArray s ! k))))))"
proof (intro conjI impI)
  have PD: "P = pulse_events f" "D = button_delay_events f"
    using assms(3,4) by (simp_all add: pulse_events_def button_delay_events_def)
  let ?s1 = "s\<lparr>iPulseTrainRepeats :=
              (if 0 < unat (bButtonRepeats f) then unat (bPulseTrainRepeats f)
               else iPulseTrainRepeats s),
            iButtonRepeats := unat (bButtonRepeats f),
            trace := trace s @ frame_events f\<rparr>"
  have bl: "button_loop (s\<lparr>iButtonRepeats := 0\<rparr>) = Some ?s1"
    using button_loop_spec [of "s\<lparr>iButtonRepeats := 0\<rparr>"] assms(1,2)
    by (simp add: frame_events_def)
  have six: "bPulseTrainRepeats f = 3 \<and> bButtonRepeats f = 2 \<longrightarrow>
      dispatches (frame_events f) = 6 \<and> frame_events f = P @ P @ P @ D @ P @ P @ P @ D"
  proof
    assume "bPulseTrainRepeats f = 3 \<and> bButtonRepeats f = 2"
    then have n: "unat (bPulseTrainRepeats f) = Suc (Suc (Suc 0))"
        "unat (bButtonRepeats f) = Suc (Suc 0)"
      by simp_all
    show "dispatches (frame_events f) = 6 \<and> frame_events f = P @ P @ P @ D @ P @ P @ P @ D"
      unfolding dispatches_frame_events by (simp add: frame_events_def button_events_def PD n)
  qed
  show "\<exists>s1 evs. button_loop (s\<lparr>iButtonRepeats := 0\<rparr>) = Some s1 \<and>
            trace s1 = trace s @ evs \<and>
            dispatches evs = unat (bButtonRepeats f) * unat (bPulseTrainRepeats f) \<and>
            (bPulseTrainRepeats f = 3 \<and> bButtonRepeats f = 2 \<longrightarrow>
               dispatches evs = 6 \<and> evs = P @ P @ P @ D @ P @ P @ P @ D)"
  proof (intro exI conjI)
    show "button_loop (s\<lparr>iButtonRepeats := 0\<rparr>) = Some ?s1" by (rule bl)
    show "trace ?s1 = trace s @ frame_events f" by simp
    show "dispatches (frame_events f) = unat (bButtonRepeats f) * unat (bPulseTrainRepeats f)"
      by (rule dispatches_frame_events)
    show "bPulseTrainRepeats f = 3 \<and> bButtonRepeats f = 2 \<longrightarrow>
      dispatches (frame_events f) = 6 \<and> frame_events f = P @ P @ P @ D @ P @ P @ P @ D"
      by (rule six)
  qed
next
  assume a: "uiDataArrayPointer s \<le> MAX_SEQUENCES \<and> current_state s = eIDLE \<and> bFreshDataFlag s"
  then obtain jp jb where "loop s =
    Some (s\<lparr>uiDataArrayPointer := 0,
            bFreshDataFlag := False,
            iDataArrayIndex := uiDataArrayPointer s,
            iPulseTrainRepeats := jp,
            iButtonRepeats := jb,
            ready_pin := True,
            trace := trace s @ DigitalWrite False #
              slots_events (uDataArray s) 0 (uiDataArrayPointer s) @ [DigitalWrite True]\<rparr>)"
    using loop_spec [of s] by blast
  then show "\<exists>s2 evs. loop s = Some s2 \<and>
               trace s2 = trace s @ [DigitalWrite False] @ evs @ [DigitalWrite True] \<and>
               dispatches evs =
                 (\<Sum>k \<leftarrow> [0..<uiDataArrayPointer s].
                    unat (bButtonRepeats (ra (uDataArray s ! k))) *
                    unat (bPulseTrainRepeats (ra (uDataArray s ! k))))"
    by (simp add: dispatches_slots_events)
qed

theorem dispatch_count_witness:
  "iDataArrayIndex example_state < MAX_SEQUENCES \<and>
   bPulseTrainRepeats (ra (uDataArray example_state ! iDataArrayIndex example_state)) = 3 \<and>
   bButtonRepeats (ra (uDataArray example_state ! iDataArrayIndex example_state)) = 2 \<and>
   map_option trace (button_loop (example_state\<lparr>iButtonRepeats := 0\<rparr>)) =
     Some (trace example_state @
       [Switch 0, SendRC6 0xC05C01 24, Delay 124,
        Switch 0, SendRC6 0xC05C01 24, Delay 124,
        Switch 0, SendRC6 0xC05C01 24, Delay 124,
        Delay 400,
        Switch 0, SendRC6 0xC05C01 24, Delay 124,
        Switch 0, SendRC6 0xC05C01 24, Delay 124,
        Switch 0, SendRC6 0xC05C01 24, Delay 124,
        Delay 400]) \<and>
   uiDataArrayPointer example_state \<le> MAX_SEQUENCES \<and>
   current_state example_state = eIDLE \<and> bFreshDataFlag example_state \<and>
   (\<exists>s2 evs. loop example_state = Some s2 \<and>
      trace s2 = trace example_state @ [DigitalWrite False] @ evs @ [DigitalWrite True] \<and>
      dispatches evs = 6)"
proof -
  define f where "f = ra (uDataArray example_state ! iDataArrayIndex example_state)"
  have i: "iDataArrayIndex example_state = 0" "uiDataArrayPointer example_state = 1"
    "current_state example_state = eIDLE" "bFreshDataFlag example_state"
    by (simp_all add: example_state_def setup_fn_def)
  have f: "f = \<lparr>bEncoding = 0, ui32Data = 0xC05C01, bNumberOfBitsInTheData = 24,
     bPulseTrainRepeats = 3, bDelayBetweenPulseTrainRepeats = 124, bButtonRepeats = 2,
     ui16DelayBetweenButtonRepeats = 400, bFreshData = 0xFF\<rparr>"
    unfolding f_def i example_state_slot by (rule example_key_ra)
  have lt: "iDataArrayIndex example_state < MAX_SEQUENCES"
    by (simp add: i MAX_SEQUENCES_def)
  have send: "irsend f = [SendRC6 0xC05C01 24]"
    by (simp add: f irsend_def ENCODING_TYPE_RC6_def)
  show ?thesis
    using dispatch_count [OF lt f_def refl refl] lt i
    unfolding f_def [symmetric] send
    by (auto simp add: f MAX_SEQUENCES_def example_state_slot example_key_ra)
qed




text \<open>
  C3, the part the code misses: on a transfer that is not 12 bytes long the handler reads
  one byte less than it was given (\<^verbatim>\<open>x < howMany-1\<close>), so the last byte of the transfer
  stays in the receive buffer. The queue is left as it was (lemma \<open>onReceive_malformed\<close>).
\<close>

theorem malformed_transfer_leaves_byte:
  "onReceive [1, 2, 3, 4, 5] setup_fn = Some (setup_fn\<lparr>rxBuffer := [5]\<rparr>)"
  by (simp add: onReceive_malformed MAX_BUFFER_def)

text \<open>
  C4: more key presses than the queue has slots. The write cursor stops at 19, every
  write is inside the array (the run returns a state, and the array keeps its shape),
  the first 19 key presses stay in the slots 0 to 18 in the order received, slot 19 holds
  the last one received, and a playback started then plays the first 19 only.
\<close>

theorem queue_overflow_clamped:
  assumes "wf_state s" and "uiDataArrayPointer s = 0"
    and "list_all (\<lambda>bs. length bs = MAX_BUFFER) bss"
    and "MAX_SEQUENCES < length bss"
  shows "(\<forall>n \<le> length bss. \<exists>tn. onReceive_all (take n bss) s = Some tn \<and> wf_state tn \<and>
            uiDataArrayPointer tn \<le> MAX_SEQUENCES - 1) \<and>
         (\<exists>t. onReceive_all bss s = Some t \<and> wf_state t \<and>
            uiDataArrayPointer t = MAX_SEQUENCES - 1 \<and>
            take (MAX_SEQUENCES - 1) (uDataArray t) = take (MAX_SEQUENCES - 1) bss \<and>
            uDataArray t ! (MAX_SEQUENCES - 1) = last bss \<and>
            (current_state s = eIDLE \<and> bFreshDataFlag t \<longrightarrow>
               (\<exists>t'. loop t = Some t' \<and>
                  trace t' = trace s @ [DigitalWrite False] @
                    concat (map (frame_events \<circ> ra) (take (MAX_SEQUENCES - 1) bss)) @
                    [DigitalWrite True])))"
proof (intro conjI allI impI)
  fix n assume "n \<le> length bss"
  have "list_all (\<lambda>bs. length bs = MAX_BUFFER) (take n bss)"
    using assms(3) by (auto simp add: list_all_iff dest: in_set_takeD)
  from onReceive_all_queue [OF assms(1,2) this]
  obtain tn where "onReceive_all (take n bss) s = Some tn" "wf_state tn"
    "uiDataArrayPointer tn = min (length (take n bss)) (MAX_SEQUENCES - 1)"
    by blast
  then show "\<exists>tn. onReceive_all (take n bss) s = Some tn \<and> wf_state tn \<and>
            uiDataArrayPointer tn \<le> MAX_SEQUENCES - 1"
    by simp
next
  obtain t where t: "onReceive_all bss s = Some t" "wf_state t"
     "uiDataArrayPointer t = min (length bss) (MAX_SEQUENCES - 1)"
     "take (uiDataArrayPointer t) (uDataArray t) = take (MAX_SEQUENCES - 1) bss"
     "MAX_SEQUENCES \<le> length bss \<longrightarrow> uDataArray t ! (MAX_SEQUENCES - 1) = last bss"
     "current_state t = current_state s" "trace t = trace s"
    using onReceive_all_queue [OF assms(1-3)] by blast
  have p: "uiDataArrayPointer t = MAX_SEQUENCES - 1"
    using t(3) assms(4) by simp
  have len: "length (uDataArray t) = MAX_SEQUENCES"
    using t(2) by (simp add: wf_state_def)
  have play: "current_state s = eIDLE \<and> bFreshDataFlag t \<longrightarrow>
     (\<exists>t'. loop t = Some t' \<and>
        trace t' = trace s @ [DigitalWrite False] @
          concat (map (frame_events \<circ> ra) (take (MAX_SEQUENCES - 1) bss)) @
          [DigitalWrite True])"
  proof
    assume a: "current_state s = eIDLE \<and> bFreshDataFlag t"
    have ev: "slots_events (uDataArray t) 0 (uiDataArrayPointer t) =
        concat (map (frame_events \<circ> ra) (take (MAX_SEQUENCES - 1) bss))"
      using slots_events_take [of "uiDataArrayPointer t" "uDataArray t"] len p t(4) by simp
    obtain jp jb where "loop t =
      Some (t\<lparr>uiDataArrayPointer := 0,
            bFreshDataFlag := False,
            iDataArrayIndex := uiDataArrayPointer t,
            iPulseTrainRepeats := jp,
            iButtonRepeats := jb,
            ready_pin := True,
            trace := trace t @ DigitalWrite False #
              slots_events (uDataArray t) 0 (uiDataArrayPointer t) @ [DigitalWrite True]\<rparr>)"
      using loop_spec [of t] a t(6) p by (simp add: MAX_SEQUENCES_def) blast
    then show "\<exists>t'. loop t = Some t' \<and>
        trace t' = trace s @ [DigitalWrite False] @
          concat (map (frame_events \<circ> ra) (take (MAX_SEQUENCES - 1) bss)) @
          [DigitalWrite True]"
      unfolding ev by (simp add: t(7))
  qed
  show "\<exists>t. onReceive_all bss s = Some t \<and> wf_state t \<and>
            uiDataArrayPointer t = MAX_SEQUENCES - 1 \<and>
            take (MAX_SEQUENCES - 1) (uDataArray t) = take (MAX_SEQUENCES - 1) bss \<and>
            uDataArray t ! (MAX_SEQUENCES - 1) = last bss \<and>
            (current_state s = eIDLE \<and> bFreshDataFlag t \<longrightarrow>
               (\<exists>t'. loop t = Some t' \<and>
                  trace t' = trace s @ [DigitalWrite False] @
                    concat (map (frame_events \<circ> ra) (take (MAX_SEQUENCES - 1) bss)) @
                    [DigitalWrite True]))"
  proof (intro exI conjI)
    show "onReceive_all bss s = Some t" by (rule t(1))
    show "wf_state t" by (rule t(2))
    show "uiDataArrayPointer t = MAX_SEQUENCES - 1" by (rule p)
    show "take (MAX_SEQUENCES - 1) (uDataArray t) = take (MAX_SEQUENCES - 1) bss"
      using t(4) p by simp
    show "uDataArray t ! (MAX_SEQUENCES - 1) = last bss"
      using t(5) assms(4) by simp
    show "current_state s = eIDLE \<and> bFreshDataFlag t \<longrightarrow>
               (\<exists>t'. loop t = Some t' \<and>
                  trace t' = trace s @ [DigitalWrite False] @
                    concat (map (frame_events \<circ> ra) (take (MAX_SEQUENCES - 1) bss)) @
                    [DigitalWrite True])"
      by (rule play)
  qed
qed

theorem queue_overflow_clamped_witness:
  "wf_state setup_fn \<and> uiDataArrayPointer setup_fn = 0 \<and>
   list_all (\<lambda>bs. length bs = MAX_BUFFER) example_overflow \<and>
   MAX_SEQUENCES < length example_overflow \<and>
   map_option uiDataArrayPointer (onReceive_all example_overflow setup_fn) = Some 19 \<and>
   map_option (\<lambda>t. take 19 (uDataArray t)) (onReceive_all example_overflow setup_fn) =
     Some (example_key # replicate 18 example_zero_key) \<and>
   map_option (\<lambda>t. uDataArray t ! 19) (onReceive_all example_overflow setup_fn) =
     Some example_odd_key \<and>
   current_state setup_fn = eIDLE \<and>
   map_option bFreshDataFlag (onReceive_all example_overflow setup_fn) = Some True \<and>
   map_option trace (Option.bind (onReceive_all example_overflow setup_fn) loop) =
     Some (trace setup_fn @
       [DigitalWrite False,
        Switch 0, SendRC6 0xC05C01 24, Delay 124,
        Switch 0, SendRC6 0xC05C01 24, Delay 124,
        Switch 0, SendRC6 0xC05C01 24, Delay 124,
        Delay 400,
        Switch 0, SendRC6 0xC05C01 24, Delay 124,
        Switch 0, SendRC6 0xC05C01 24, Delay 124,
        Switch 0, SendRC6 0xC05C01 24, Delay 124,
        Delay 400,
        DigitalWrite True])"
proof -
  have p0: "uiDataArrayPointer setup_fn = 0" "current_state setup_fn = eIDLE"
    "\<not> bFreshDataFlag setup_fn"
    by (simp_all add: setup_fn_def)
  have la: "list_all (\<lambda>bs. length bs = MAX_BUFFER) example_overflow"
    by (simp add: example_overflow_def example_lengths list_all_iff)
  have lt: "MAX_SEQUENCES < length example_overflow"
    by (simp add: example_overflow_def MAX_SEQUENCES_def)
  have tk: "take 19 example_overflow = example_key # replicate 18 example_zero_key"
    by (simp add: example_overflow_def take_Cons')
  have ls: "last example_overflow = example_odd_key"
    by (simp add: example_overflow_def)
  have fr: "list_ex fresh example_overflow"
    by (simp add: example_overflow_def example_fresh)
  obtain t where t: "onReceive_all example_overflow setup_fn = Some t"
     "bFreshDataFlag t = (bFreshDataFlag setup_fn \<or> list_ex fresh example_overflow)"
    using onReceive_all_queue [OF wf_state_setup p0(1) la] by blast
  have flag: "bFreshDataFlag t"
    using t(2) fr by simp
  show ?thesis
    using queue_overflow_clamped [OF wf_state_setup p0(1) la lt] wf_state_setup p0 la lt
      t(1) flag
    by (auto simp add: MAX_SEQUENCES_def tk ls example_key_events example_zero_key_events)
qed

text \<open>
  C5: sending a key press and reading it back gives the key press: the \<^verbatim>\<open>ra\<close> view of
  the 12 bytes that the \<^verbatim>\<open>da\<close> view of a struct holds is that struct. Every value of
  the struct is within the ranges its fields have (\<^verbatim>\<open>bButtonRepeats\<close> is one byte: the
  256 of the header comment is not a value of it).
\<close>

theorem ra_da_roundtrip: "ra (da f) = f"
  by (simp add: ra_def da_def le32_split le16_split)

text \<open>
  C6: every 12 bytes read as a key press, field by field as the register map says, and
  \<^verbatim>\<open>receiveEvent\<close> stores them whatever they are.
\<close>

theorem ra_layout_total:
  assumes "length bs = MAX_BUFFER"
  shows "da (ra bs) = bs \<and>
     bEncoding (ra bs) = bs ! 0 \<and>
     unat (ui32Data (ra bs)) =
       unat (bs ! 1) + 256 * unat (bs ! 2) + 65536 * unat (bs ! 3) + 16777216 * unat (bs ! 4) \<and>
     bNumberOfBitsInTheData (ra bs) = bs ! 5 \<and>
     bPulseTrainRepeats (ra bs) = bs ! 6 \<and>
     bDelayBetweenPulseTrainRepeats (ra bs) = bs ! 7 \<and>
     bButtonRepeats (ra bs) = bs ! 8 \<and>
     unat (ui16DelayBetweenButtonRepeats (ra bs)) = unat (bs ! 9) + 256 * unat (bs ! 10) \<and>
     (fresh bs \<longleftrightarrow> bs ! 11 \<noteq> 0) \<and>
     (wf_state s \<longrightarrow>
        (\<exists>s1. onReceive bs s = Some s1 \<and>
              uDataArray_ra s1 (uiDataArrayPointer s) = Some (ra bs)))"
proof -
  have "wf_state s \<longrightarrow>
        (\<exists>s1. onReceive bs s = Some s1 \<and>
              uDataArray_ra s1 (uiDataArrayPointer s) = Some (ra bs))"
  proof
    assume wf: "wf_state s"
    then have "uiDataArrayPointer s < MAX_SEQUENCES" "length (uDataArray s) = MAX_SEQUENCES"
      by (simp_all add: wf_state_def)
    then show "\<exists>s1. onReceive bs s = Some s1 \<and>
              uDataArray_ra s1 (uiDataArrayPointer s) = Some (ra bs)"
      by (simp add: onReceive_frame [OF wf assms] uDataArray_ra_def)
  qed
  moreover have "unat (ui32Data (ra bs)) =
       unat (bs ! 1) + 256 * unat (bs ! 2) + 65536 * unat (bs ! 3) + 16777216 * unat (bs ! 4)"
    by (simp add: ra_def le32_unat)
  moreover have "unat (ui16DelayBetweenButtonRepeats (ra bs)) =
       unat (bs ! 9) + 256 * unat (bs ! 10)"
    by (simp add: ra_def le16_unat)
  moreover have "bEncoding (ra bs) = bs ! 0" "bNumberOfBitsInTheData (ra bs) = bs ! 5"
     "bPulseTrainRepeats (ra bs) = bs ! 6" "bDelayBetweenPulseTrainRepeats (ra bs) = bs ! 7"
     "bButtonRepeats (ra bs) = bs ! 8" "fresh bs \<longleftrightarrow> bs ! 11 \<noteq> 0"
    by (simp_all add: ra_def fresh_def)
  ultimately show ?thesis
    using da_ra [OF assms] by blast
qed

theorem ra_layout_total_witness:
  "length [0, 1, 0x5C, 0xC0, 0, 200, 2, 124, 1, 0x90, 1, 0xFF :: byte] = MAX_BUFFER \<and>
   wf_state setup_fn \<and>
   da (ra [0, 1, 0x5C, 0xC0, 0, 200, 2, 124, 1, 0x90, 1, 0xFF]) =
     [0, 1, 0x5C, 0xC0, 0, 200, 2, 124, 1, 0x90, 1, 0xFF] \<and>
   unat (ui32Data (ra [0, 1, 0x5C, 0xC0, 0, 200, 2, 124, 1, 0x90, 1, 0xFF])) = 0xC05C01 \<and>
   bNumberOfBitsInTheData (ra [0, 1, 0x5C, 0xC0, 0, 200, 2, 124, 1, 0x90, 1, 0xFF]) = 200 \<and>
   unat (ui16DelayBetweenButtonRepeats
           (ra [0, 1, 0x5C, 0xC0, 0, 200, 2, 124, 1, 0x90, 1, 0xFF])) = 400 \<and>
   fresh [0, 1, 0x5C, 0xC0, 0, 200, 2, 124, 1, 0x90, 1, 0xFF] \<and>
   map_option (\<lambda>s1. uDataArray_ra s1 0)
       (onReceive [0, 1, 0x5C, 0xC0, 0, 200, 2, 124, 1, 0x90, 1, 0xFF] setup_fn) =
     Some (Some (ra [0, 1, 0x5C, 0xC0, 0, 200, 2, 124, 1, 0x90, 1, 0xFF]))"
proof -
  have len: "length [0, 1, 0x5C, 0xC0, 0, 200, 2, 124, 1, 0x90, 1, 0xFF :: byte] = MAX_BUFFER"
    by (simp add: MAX_BUFFER_def)
  have p0: "uiDataArrayPointer setup_fn = 0"
    by (simp add: setup_fn_def)
  show ?thesis
    using ra_layout_total [OF len, of setup_fn] wf_state_setup len p0
    by auto
qed

text \<open>
  C7: an encoding that is none of the five makes the \<^verbatim>\<open>switch\<close> do nothing: the pass
  through the innermost loop emits the marker and the delay only, no \<^verbatim>\<open>irsend\<close> call;
  all the passes are made, and \<^verbatim>\<open>loop()\<close> plays the slots before and after as usual and
  ends idle.
\<close>

theorem unknown_encoding_noop:
  assumes "uiDataArrayPointer s \<le> MAX_SEQUENCES"
    and "current_state s = eIDLE" and "bFreshDataFlag s"
    and "k < uiDataArrayPointer s"
    and "f = ra (uDataArray s ! k)"
    and "bEncoding f \<notin> {ENCODING_TYPE_RC6, ENCODING_TYPE_SONY, ENCODING_TYPE_SAMSUNG,
                         ENCODING_TYPE_NEC, ENCODING_TYPE_LG}"
    and "D = (if 0 < ui16DelayBetweenButtonRepeats f
              then [Delay (unat (ui16DelayBetweenButtonRepeats f))] else [])"
  shows "irsend f = [] \<and>
     pulse_body f t = t\<lparr>iPulseTrainRepeats := iPulseTrainRepeats t + 1,
        trace := trace t @ [Switch (bEncoding f),
                            Delay (unat (bDelayBetweenPulseTrainRepeats f))]\<rparr> \<and>
     (\<exists>s' evs. loop s = Some s' \<and>
        trace s' = trace s @ [DigitalWrite False] @ slots_events (uDataArray s) 0 k @ evs @
           slots_events (uDataArray s) (Suc k) (uiDataArrayPointer s) @ [DigitalWrite True] \<and>
        evs = concat (replicate (unat (bButtonRepeats f))
                (concat (replicate (unat (bPulseTrainRepeats f))
                   [Switch (bEncoding f), Delay (unat (bDelayBetweenPulseTrainRepeats f))]) @ D)) \<and>
        sends evs = [] \<and>
        dispatches evs = unat (bButtonRepeats f) * unat (bPulseTrainRepeats f) \<and>
        current_state s' = eIDLE \<and> iDataArrayIndex s' = uiDataArrayPointer s)"
proof (intro conjI)
  show no: "irsend f = []"
    using assms(6) by (simp add: irsend_def Let_def)
  then show "pulse_body f t = t\<lparr>iPulseTrainRepeats := iPulseTrainRepeats t + 1,
        trace := trace t @ [Switch (bEncoding f),
                            Delay (unat (bDelayBetweenPulseTrainRepeats f))]\<rparr>"
    by (simp add: pulse_body_eq pulse_events_def)
  obtain s' where s': "loop s = Some s'"
     "trace s' = trace s @ [DigitalWrite False] @ slots_events (uDataArray s) 0 k @
        frame_events f @
        slots_events (uDataArray s) (Suc k) (uiDataArrayPointer s) @ [DigitalWrite True]"
     "current_state s' = eIDLE" "iDataArrayIndex s' = uiDataArrayPointer s"
    using loop_plays_slot [OF assms(1-4)] assms(5) by blast
  have ev: "frame_events f = concat (replicate (unat (bButtonRepeats f))
                (concat (replicate (unat (bPulseTrainRepeats f))
                   [Switch (bEncoding f), Delay (unat (bDelayBetweenPulseTrainRepeats f))]) @ D))"
    using no assms(7)
    by (simp add: frame_events_def button_events_def pulse_events_def button_delay_events_def)
  have "sends (frame_events f) = []"
    by (simp add: sends_frame_events no)
  then show "\<exists>s' evs. loop s = Some s' \<and>
        trace s' = trace s @ [DigitalWrite False] @ slots_events (uDataArray s) 0 k @ evs @
           slots_events (uDataArray s) (Suc k) (uiDataArrayPointer s) @ [DigitalWrite True] \<and>
        evs = concat (replicate (unat (bButtonRepeats f))
                (concat (replicate (unat (bPulseTrainRepeats f))
                   [Switch (bEncoding f), Delay (unat (bDelayBetweenPulseTrainRepeats f))]) @ D)) \<and>
        sends evs = [] \<and>
        dispatches evs = unat (bButtonRepeats f) * unat (bPulseTrainRepeats f) \<and>
        current_state s' = eIDLE \<and> iDataArrayIndex s' = uiDataArrayPointer s"
    using s' dispatches_frame_events [of f] unfolding ev by blast
qed

theorem unknown_encoding_noop_witness:
  "uiDataArrayPointer (queue2 example_odd_key example_key) \<le> MAX_SEQUENCES \<and>
   current_state (queue2 example_odd_key example_key) = eIDLE \<and>
   bFreshDataFlag (queue2 example_odd_key example_key) \<and>
   0 < uiDataArrayPointer (queue2 example_odd_key example_key) \<and>
   bEncoding (ra (uDataArray (queue2 example_odd_key example_key) ! 0)) = 9 \<and>
   irsend (ra (uDataArray (queue2 example_odd_key example_key) ! 0)) = [] \<and>
   map_option trace (loop (queue2 example_odd_key example_key)) =
     Some (trace (queue2 example_odd_key example_key) @
       [DigitalWrite False,
        Switch 9, Delay 22, Switch 9, Delay 22,
        Switch 0, SendRC6 0xC05C01 24, Delay 124,
        Switch 0, SendRC6 0xC05C01 24, Delay 124,
        Switch 0, SendRC6 0xC05C01 24, Delay 124,
        Delay 400,
        Switch 0, SendRC6 0xC05C01 24, Delay 124,
        Switch 0, SendRC6 0xC05C01 24, Delay 124,
        Switch 0, SendRC6 0xC05C01 24, Delay 124,
        Delay 400,
        DigitalWrite True])"
proof -
  let ?S = "queue2 example_odd_key example_key"
  have h: "uiDataArrayPointer ?S \<le> MAX_SEQUENCES" "current_state ?S = eIDLE"
      "bFreshDataFlag ?S" "0 < uiDataArrayPointer ?S"
    by (simp_all add: queue2_fields MAX_SEQUENCES_def fresh_def example_key_ra)
  have f: "ra (uDataArray ?S ! 0) = ra example_odd_key"
    by (simp add: queue2_fields)
  have odd: "bEncoding (ra example_odd_key) \<notin>
      {ENCODING_TYPE_RC6, ENCODING_TYPE_SONY, ENCODING_TYPE_SAMSUNG,
       ENCODING_TYPE_NEC, ENCODING_TYPE_LG}"
    by (simp add: example_odd_key_ra ENCODING_TYPE_RC6_def ENCODING_TYPE_SONY_def
          ENCODING_TYPE_SAMSUNG_def ENCODING_TYPE_NEC_def ENCODING_TYPE_LG_def)
  show ?thesis
    using unknown_encoding_noop [OF h f [symmetric] odd refl] h
    by (auto simp add: queue2_fields slots_events_eval example_key_events
          example_odd_key_ra replicate_small)
qed

text \<open>
  C8, as the code has it: the third \<^verbatim>\<open>if\<close> of \<^verbatim>\<open>loop()\<close> takes a busy slave whose
  index has reached the cursor back to idle, sets the cursor to 0 and the pin high. When
  the fresh-data flag is clear at that point, a run of key presses then leaves the queue
  as it leaves the queue of a slave fresh from \<^verbatim>\<open>setup()\<close> (same cursor, same flag, same
  slots below the cursor), and the next \<^verbatim>\<open>loop()\<close> emits the same events. The flag is
  clear there after every \<^verbatim>\<open>loop()\<close> that no transfer interrupts.
\<close>

theorem busy_to_idle_reset:
  assumes "wf_state u" and "current_state u = eBUSY"
    and "uiDataArrayPointer u \<le> iDataArrayIndex u"
    and "list_all (\<lambda>bs. length bs = MAX_BUFFER) bss"
  shows "current_state (loop_finish u) = eIDLE \<and> uiDataArrayPointer (loop_finish u) = 0 \<and>
         ready_pin (loop_finish u) \<and> trace (loop_finish u) = trace u @ [DigitalWrite True] \<and>
         uDataArray (loop_finish u) = uDataArray u \<and>
         (\<not> bFreshDataFlag u \<longrightarrow>
            (\<exists>t t0. onReceive_all bss (loop_finish u) = Some t \<and>
               onReceive_all bss setup_fn = Some t0 \<and>
               uiDataArrayPointer t = uiDataArrayPointer t0 \<and>
               bFreshDataFlag t = bFreshDataFlag t0 \<and>
               current_state t = current_state t0 \<and> ready_pin t = ready_pin t0 \<and>
               take (uiDataArrayPointer t) (uDataArray t) =
                 take (uiDataArrayPointer t0) (uDataArray t0) \<and>
               (\<exists>v v0. loop t = Some v \<and> loop t0 = Some v0 \<and>
                  drop (length (trace t)) (trace v) = drop (length (trace t0)) (trace v0) \<and>
                  current_state v = current_state v0 \<and>
                  uiDataArrayPointer v = uiDataArrayPointer v0))) \<and>
         (wf_state s \<and> current_state s = eIDLE \<and> bFreshDataFlag s \<longrightarrow>
            (\<exists>s'. loop s = Some s' \<and> wf_state s' \<and>
               current_state s' = eIDLE \<and> uiDataArrayPointer s' = 0 \<and>
               \<not> bFreshDataFlag s' \<and> ready_pin s' \<and> last (trace s') = DigitalWrite True \<and>
               (\<exists>t t0. onReceive_all bss s' = Some t \<and> onReceive_all bss setup_fn = Some t0 \<and>
                  uiDataArrayPointer t = uiDataArrayPointer t0 \<and>
                  bFreshDataFlag t = bFreshDataFlag t0 \<and>
                  current_state t = current_state t0 \<and> ready_pin t = ready_pin t0 \<and>
                  take (uiDataArrayPointer t) (uDataArray t) =
                    take (uiDataArrayPointer t0) (uDataArray t0) \<and>
                  (\<exists>v v0. loop t = Some v \<and> loop t0 = Some v0 \<and>
                     drop (length (trace t)) (trace v) = drop (length (trace t0)) (trace v0) \<and>
                     current_state v = current_state v0 \<and>
                     uiDataArrayPointer v = uiDataArrayPointer v0))))"
proof -
  have fin: "loop_finish u = u\<lparr>current_state := eIDLE, uiDataArrayPointer := 0,
               ready_pin := True, trace := trace u @ [DigitalWrite True]\<rparr>"
    by (rule loop_finish_busy [OF assms(2,3)])
  have a: "current_state (loop_finish u) = eIDLE" "uiDataArrayPointer (loop_finish u) = 0"
     "ready_pin (loop_finish u)" "trace (loop_finish u) = trace u @ [DigitalWrite True]"
     "uDataArray (loop_finish u) = uDataArray u"
     "bFreshDataFlag (loop_finish u) = bFreshDataFlag u"
    unfolding fin by simp_all
  have wfu: "wf_state (loop_finish u)"
    using assms(1) unfolding fin by (simp add: wf_state_def MAX_SEQUENCES_def)
  have b: "\<not> bFreshDataFlag u \<longrightarrow>
            (\<exists>t t0. onReceive_all bss (loop_finish u) = Some t \<and>
               onReceive_all bss setup_fn = Some t0 \<and>
               uiDataArrayPointer t = uiDataArrayPointer t0 \<and>
               bFreshDataFlag t = bFreshDataFlag t0 \<and>
               current_state t = current_state t0 \<and> ready_pin t = ready_pin t0 \<and>
               take (uiDataArrayPointer t) (uDataArray t) =
                 take (uiDataArrayPointer t0) (uDataArray t0) \<and>
               (\<exists>v v0. loop t = Some v \<and> loop t0 = Some v0 \<and>
                  drop (length (trace t)) (trace v) = drop (length (trace t0)) (trace v0) \<and>
                  current_state v = current_state v0 \<and>
                  uiDataArrayPointer v = uiDataArrayPointer v0))"
  proof
    assume "\<not> bFreshDataFlag u"
    then have "\<not> bFreshDataFlag (loop_finish u)" by (simp add: a(6))
    from append_as_fresh [OF wfu a(1,2) this a(3) assms(4)]
    show "\<exists>t t0. onReceive_all bss (loop_finish u) = Some t \<and>
               onReceive_all bss setup_fn = Some t0 \<and>
               uiDataArrayPointer t = uiDataArrayPointer t0 \<and>
               bFreshDataFlag t = bFreshDataFlag t0 \<and>
               current_state t = current_state t0 \<and> ready_pin t = ready_pin t0 \<and>
               take (uiDataArrayPointer t) (uDataArray t) =
                 take (uiDataArrayPointer t0) (uDataArray t0) \<and>
               (\<exists>v v0. loop t = Some v \<and> loop t0 = Some v0 \<and>
                  drop (length (trace t)) (trace v) = drop (length (trace t0)) (trace v0) \<and>
                  current_state v = current_state v0 \<and>
                  uiDataArrayPointer v = uiDataArrayPointer v0)" .
  qed
  have c: "wf_state s \<and> current_state s = eIDLE \<and> bFreshDataFlag s \<longrightarrow>
            (\<exists>s'. loop s = Some s' \<and> wf_state s' \<and>
               current_state s' = eIDLE \<and> uiDataArrayPointer s' = 0 \<and>
               \<not> bFreshDataFlag s' \<and> ready_pin s' \<and> last (trace s') = DigitalWrite True \<and>
               (\<exists>t t0. onReceive_all bss s' = Some t \<and> onReceive_all bss setup_fn = Some t0 \<and>
                  uiDataArrayPointer t = uiDataArrayPointer t0 \<and>
                  bFreshDataFlag t = bFreshDataFlag t0 \<and>
                  current_state t = current_state t0 \<and> ready_pin t = ready_pin t0 \<and>
                  take (uiDataArrayPointer t) (uDataArray t) =
                    take (uiDataArrayPointer t0) (uDataArray t0) \<and>
                  (\<exists>v v0. loop t = Some v \<and> loop t0 = Some v0 \<and>
                     drop (length (trace t)) (trace v) = drop (length (trace t0)) (trace v0) \<and>
                     current_state v = current_state v0 \<and>
                     uiDataArrayPointer v = uiDataArrayPointer v0)))"
  proof
    assume h: "wf_state s \<and> current_state s = eIDLE \<and> bFreshDataFlag s"
    then have p: "uiDataArrayPointer s \<le> MAX_SEQUENCES"
      by (simp add: wf_state_def)
    obtain jp jb where l: "loop s =
      Some (s\<lparr>uiDataArrayPointer := 0,
            bFreshDataFlag := False,
            iDataArrayIndex := uiDataArrayPointer s,
            iPulseTrainRepeats := jp,
            iButtonRepeats := jb,
            ready_pin := True,
            trace := trace s @ DigitalWrite False #
              slots_events (uDataArray s) 0 (uiDataArrayPointer s) @ [DigitalWrite True]\<rparr>)"
      using loop_spec [OF p] h by blast
    define s' where "s' = s\<lparr>uiDataArrayPointer := 0,
            bFreshDataFlag := False,
            iDataArrayIndex := uiDataArrayPointer s,
            iPulseTrainRepeats := jp,
            iButtonRepeats := jb,
            ready_pin := True,
            trace := trace s @ DigitalWrite False #
              slots_events (uDataArray s) 0 (uiDataArrayPointer s) @ [DigitalWrite True]\<rparr>"
    have s': "loop s = Some s'" "wf_state s'" "current_state s' = eIDLE"
       "uiDataArrayPointer s' = 0" "\<not> bFreshDataFlag s'" "ready_pin s'"
       "last (trace s') = DigitalWrite True"
      using l h by (simp_all add: s'_def wf_state_def MAX_SEQUENCES_def)
    note eq = append_as_fresh [OF s'(2,3,4,5,6) assms(4)]
    show "\<exists>s'. loop s = Some s' \<and> wf_state s' \<and>
               current_state s' = eIDLE \<and> uiDataArrayPointer s' = 0 \<and>
               \<not> bFreshDataFlag s' \<and> ready_pin s' \<and> last (trace s') = DigitalWrite True \<and>
               (\<exists>t t0. onReceive_all bss s' = Some t \<and> onReceive_all bss setup_fn = Some t0 \<and>
                  uiDataArrayPointer t = uiDataArrayPointer t0 \<and>
                  bFreshDataFlag t = bFreshDataFlag t0 \<and>
                  current_state t = current_state t0 \<and> ready_pin t = ready_pin t0 \<and>
                  take (uiDataArrayPointer t) (uDataArray t) =
                    take (uiDataArrayPointer t0) (uDataArray t0) \<and>
                  (\<exists>v v0. loop t = Some v \<and> loop t0 = Some v0 \<and>
                     drop (length (trace t)) (trace v) = drop (length (trace t0)) (trace v0) \<and>
                     current_state v = current_state v0 \<and>
                     uiDataArrayPointer v = uiDataArrayPointer v0))"
      by (rule exI [of _ s']) (intro conjI s' eq)
  qed
  show ?thesis
    using a(1-5) b c by (intro conjI)
qed

theorem busy_to_idle_reset_witness:
  "loop_play (loop_start example_state) = Some example_played \<and>
   wf_state example_played \<and> current_state example_played = eBUSY \<and>
   uiDataArrayPointer example_played \<le> iDataArrayIndex example_played \<and>
   list_all (\<lambda>bs. length bs = MAX_BUFFER) [example_odd_key, example_key] \<and>
   \<not> bFreshDataFlag example_played \<and>
   current_state (loop_finish example_played) = eIDLE \<and>
   uiDataArrayPointer (loop_finish example_played) = 0 \<and>
   ready_pin (loop_finish example_played) \<and>
   last (trace (loop_finish example_played)) = DigitalWrite True \<and>
   map_option uiDataArrayPointer
     (onReceive_all [example_odd_key, example_key] (loop_finish example_played)) = Some 2 \<and>
   map_option bFreshDataFlag
     (onReceive_all [example_odd_key, example_key] (loop_finish example_played)) = Some True \<and>
   map_option uiDataArrayPointer (onReceive_all [example_odd_key, example_key] setup_fn) = Some 2 \<and>
   wf_state example_state \<and> current_state example_state = eIDLE \<and>
   bFreshDataFlag example_state \<and>
   map_option current_state (loop example_state) = Some eIDLE \<and>
   map_option uiDataArrayPointer (loop example_state) = Some 0 \<and>
   map_option bFreshDataFlag (loop example_state) = Some False \<and>
   map_option ready_pin (loop example_state) = Some True \<and>
   map_option uiDataArrayPointer
     (Option.bind (loop example_state) (onReceive_all [example_odd_key, example_key])) = Some 2"
proof -
  have i: "current_state example_state = eIDLE" "bFreshDataFlag example_state"
    by (simp_all add: example_state_def setup_fn_def)
  have u: "current_state example_played = eBUSY"
     "uiDataArrayPointer example_played \<le> iDataArrayIndex example_played"
     "\<not> bFreshDataFlag example_played"
    by (simp_all add: example_played_def example_state_def)
  have wfu: "wf_state example_played"
    using example_state_wf by (simp add: wf_state_def example_played_def)
  have la: "list_all (\<lambda>bs. length bs = MAX_BUFFER) [example_odd_key, example_key]"
    by (simp add: example_lengths)
  have q: "onReceive_all [example_odd_key, example_key] setup_fn =
      Some (queue2 example_odd_key example_key)"
    by (rule queue2_reached) (rule example_lengths)+
  note inst = busy_to_idle_reset [OF wfu u(1,2) la, where s = example_state]
  from inst have a: "current_state (loop_finish example_played) = eIDLE"
     "uiDataArrayPointer (loop_finish example_played) = 0"
     "ready_pin (loop_finish example_played)"
     "trace (loop_finish example_played) = trace example_played @ [DigitalWrite True]"
    by blast+
  from inst u(3) obtain t t0 where
     b: "onReceive_all [example_odd_key, example_key] (loop_finish example_played) = Some t"
     "onReceive_all [example_odd_key, example_key] setup_fn = Some t0"
     "uiDataArrayPointer t = uiDataArrayPointer t0" "bFreshDataFlag t = bFreshDataFlag t0"
    by blast
  have t0: "t0 = queue2 example_odd_key example_key"
    using b(2) q by simp
  have bt: "uiDataArrayPointer t = 2" "bFreshDataFlag t"
    using b(3,4) unfolding t0 by (simp_all add: queue2_fields example_fresh)
  from inst example_state_wf i obtain s' t' t0' where
     c: "loop example_state = Some s'"
     "current_state s' = eIDLE" "uiDataArrayPointer s' = 0" "\<not> bFreshDataFlag s'"
     "ready_pin s'"
     "onReceive_all [example_odd_key, example_key] s' = Some t'"
     "onReceive_all [example_odd_key, example_key] setup_fn = Some t0'"
     "uiDataArrayPointer t' = uiDataArrayPointer t0'"
    by blast
  have "t0' = queue2 example_odd_key example_key"
    using c(7) q by simp
  then have ct: "uiDataArrayPointer t' = 2"
    using c(8) by (simp add: queue2_fields)
  show ?thesis
    using example_played_reached wfu u la a b(1) bt q example_state_wf i c(1-6) ct
    by (simp add: queue2_fields del: onReceive_all.simps)
qed

text \<open>
  C8 as stated fails where a key press marked fresh arrives during the playback: the busy
  state reaches the cursor, the third \<^verbatim>\<open>if\<close> resets the cursor and raises the pin, and
  the flag is still set. A key press that is not marked fresh, received next, is then
  played by the next \<^verbatim>\<open>loop()\<close>; after \<^verbatim>\<open>setup()\<close> it is not.
\<close>

theorem reset_flag_counterexample:
  "map_option current_state example_busy = Some eBUSY \<and>
   map_option iDataArrayIndex example_busy = Some 2 \<and>
   map_option uiDataArrayPointer example_busy = Some 2 \<and>
   map_option current_state example_interrupted = Some eIDLE \<and>
   map_option uiDataArrayPointer example_interrupted = Some 0 \<and>
   map_option ready_pin example_interrupted = Some True \<and>
   map_option bFreshDataFlag (Option.bind example_interrupted (onReceive example_odd_key)) =
     Some True \<and>
   map_option bFreshDataFlag (onReceive example_odd_key setup_fn) = Some False \<and>
   Option.bind (Option.bind example_interrupted (onReceive example_odd_key)) loop_events =
     Some [DigitalWrite False, Switch 9, Delay 22, Switch 9, Delay 22, DigitalWrite True] \<and>
   Option.bind (onReceive example_odd_key setup_fn) loop_events = Some []"
proof -
  define s1 where "s1 = loop_start example_state"
  have i: "current_state example_state = eIDLE" "bFreshDataFlag example_state"
     "uiDataArrayPointer example_state = 1"
    by (simp_all add: example_state_def setup_fn_def)
  have s1: "current_state s1 = eBUSY" "uiDataArrayPointer s1 = 1" "iDataArrayIndex s1 = 0"
     "uDataArray s1 = uDataArray example_state"
    using i by (simp_all add: s1_def loop_start_def digitalWrite_def)
  have wf1: "wf_state s1"
    using example_state_wf s1(2,4) by (simp add: wf_state_def MAX_SEQUENCES_def)
  have la: "list_all (\<lambda>bs. length bs = MAX_BUFFER) [example_key]"
     "list_all (\<lambda>bs. length bs = MAX_BUFFER) [example_odd_key]"
    by (simp_all add: example_lengths)
  obtain s2 where s2: "onReceive_all [example_key] s1 = Some s2" "wf_state s2"
     "uiDataArrayPointer s2 = min (uiDataArrayPointer s1 + length [example_key]) (MAX_SEQUENCES - 1)"
     "bFreshDataFlag s2 = (bFreshDataFlag s1 \<or> list_ex fresh [example_key])"
     "current_state s2 = current_state s1" "iDataArrayIndex s2 = iDataArrayIndex s1"
    using onReceive_all_spec [OF wf1 la(1)] by blast
  have s2': "uiDataArrayPointer s2 = 2" "bFreshDataFlag s2" "current_state s2 = eBUSY"
     "iDataArrayIndex s2 = 0" "onReceive example_key s1 = Some s2"
    using s2 s1 by (simp_all add: MAX_SEQUENCES_def example_fresh onReceive_all_single
        del: onReceive_all.simps)
  obtain jp jb where fl: "frame_loop s2 =
    Some (s2\<lparr>iDataArrayIndex := max (iDataArrayIndex s2) (uiDataArrayPointer s2),
            iPulseTrainRepeats := jp,
            iButtonRepeats := jb,
            trace := trace s2 @
              slots_events (uDataArray s2) (iDataArrayIndex s2) (uiDataArrayPointer s2)\<rparr>)"
    using frame_loop_spec [of s2] s2'(1) by (simp add: MAX_SEQUENCES_def) blast
  define s3 where "s3 = s2\<lparr>iDataArrayIndex := max (iDataArrayIndex s2) (uiDataArrayPointer s2),
            iPulseTrainRepeats := jp,
            iButtonRepeats := jb,
            trace := trace s2 @
              slots_events (uDataArray s2) (iDataArrayIndex s2) (uiDataArrayPointer s2)\<rparr>"
  have busy: "example_busy = Some s3"
    using fl s2'(3,5) by (simp add: example_busy_def s1_def [symmetric] loop_play_def s3_def)
  have s3: "current_state s3 = eBUSY" "iDataArrayIndex s3 = 2" "uiDataArrayPointer s3 = 2"
     "bFreshDataFlag s3" "wf_state s3"
    using s2' s2(2) by (simp_all add: s3_def wf_state_def)
  define s4 where "s4 = loop_finish s3"
  have fin: "s4 = s3\<lparr>current_state := eIDLE, uiDataArrayPointer := 0,
               ready_pin := True, trace := trace s3 @ [DigitalWrite True]\<rparr>"
    unfolding s4_def using s3(1,2,3) by (intro loop_finish_busy) simp_all
  have intr: "example_interrupted = Some s4"
    by (simp add: example_interrupted_def busy s4_def)
  have s4: "current_state s4 = eIDLE" "uiDataArrayPointer s4 = 0" "ready_pin s4"
     "bFreshDataFlag s4" "wf_state s4"
    using s3 by (simp_all add: fin wf_state_def MAX_SEQUENCES_def)
  obtain s5 where s5: "onReceive_all [example_odd_key] s4 = Some s5" "wf_state s5"
     "uiDataArrayPointer s5 = min (length [example_odd_key]) (MAX_SEQUENCES - 1)"
     "bFreshDataFlag s5 = (bFreshDataFlag s4 \<or> list_ex fresh [example_odd_key])"
     "take (uiDataArrayPointer s5) (uDataArray s5) = take (MAX_SEQUENCES - 1) [example_odd_key]"
     "current_state s5 = current_state s4"
    using onReceive_all_queue [OF s4(5,2) la(2)] by blast
  have s5': "onReceive example_odd_key s4 = Some s5" "bFreshDataFlag s5"
     "current_state s5 = eIDLE" "uiDataArrayPointer s5 = 1"
     "take 1 (uDataArray s5) = [example_odd_key]"
    using s5 s4 by (simp_all add: MAX_SEQUENCES_def onReceive_all_single
        del: onReceive_all.simps)
  obtain v where v: "loop s5 = Some v"
     "drop (length (trace s5)) (trace v) =
       (if bFreshDataFlag s5
        then DigitalWrite False #
          concat (map (frame_events \<circ> ra) (take (uiDataArrayPointer s5) (uDataArray s5))) @
          [DigitalWrite True]
        else [])"
    using loop_after_batch [OF s5(2) s5'(3)] by blast
  have ev: "loop_events s5 =
      Some [DigitalWrite False, Switch 9, Delay 22, Switch 9, Delay 22, DigitalWrite True]"
    using v s5'(2,4,5) by (simp add: loop_events_def example_odd_key_events)
  have i0: "uiDataArrayPointer setup_fn = 0" "\<not> bFreshDataFlag setup_fn"
     "current_state setup_fn = eIDLE"
    by (simp_all add: setup_fn_def)
  obtain t0 where t0: "onReceive_all [example_odd_key] setup_fn = Some t0" "wf_state t0"
     "bFreshDataFlag t0 = (bFreshDataFlag setup_fn \<or> list_ex fresh [example_odd_key])"
     "current_state t0 = current_state setup_fn"
    using onReceive_all_queue [OF wf_state_setup i0(1) la(2)] by blast
  have t0': "onReceive example_odd_key setup_fn = Some t0" "\<not> bFreshDataFlag t0"
     "current_state t0 = eIDLE"
    using t0 i0 by (simp_all add: example_fresh onReceive_all_single del: onReceive_all.simps)
  have ev0: "loop_events t0 = Some []"
    using loop_idle [OF t0'(3,2)] by (simp add: loop_events_def)
  show ?thesis
    unfolding busy intr t0'(1)
    using s3(1,2,3) s4(1,2,3) s5'(1,2) ev t0'(2) ev0 by simp
qed

text \<open>
  C9: a slot with no button repeat or no pulse train reaches the \<^verbatim>\<open>switch\<close> not once
  and makes no \<^verbatim>\<open>irsend\<close> call; with no button repeat it emits nothing at all, with
  button repeats but no pulse train only the delays between button repeats. The slots
  before and after are played as usual and \<^verbatim>\<open>loop()\<close> ends idle, the queue reset.
\<close>

theorem zero_repeats_skipped:
  assumes "uiDataArrayPointer s \<le> MAX_SEQUENCES"
    and "current_state s = eIDLE" and "bFreshDataFlag s"
    and "k < uiDataArrayPointer s"
    and "f = ra (uDataArray s ! k)"
    and "bButtonRepeats f = 0 \<or> bPulseTrainRepeats f = 0"
    and "D = (if 0 < ui16DelayBetweenButtonRepeats f
              then [Delay (unat (ui16DelayBetweenButtonRepeats f))] else [])"
  shows "\<exists>s' evs. loop s = Some s' \<and>
        trace s' = trace s @ [DigitalWrite False] @ slots_events (uDataArray s) 0 k @ evs @
           slots_events (uDataArray s) (Suc k) (uiDataArrayPointer s) @ [DigitalWrite True] \<and>
        evs = (if bButtonRepeats f = 0 then []
               else concat (replicate (unat (bButtonRepeats f)) D)) \<and>
        dispatches evs = 0 \<and> sends evs = [] \<and>
        current_state s' = eIDLE \<and> iDataArrayIndex s' = uiDataArrayPointer s \<and>
        uiDataArrayPointer s' = 0"
proof -
  obtain s' where s': "loop s = Some s'"
     "trace s' = trace s @ [DigitalWrite False] @ slots_events (uDataArray s) 0 k @
        frame_events f @
        slots_events (uDataArray s) (Suc k) (uiDataArrayPointer s) @ [DigitalWrite True]"
     "current_state s' = eIDLE" "iDataArrayIndex s' = uiDataArrayPointer s"
     "uiDataArrayPointer s' = 0"
    using loop_plays_slot [OF assms(1-4)] assms(5) by blast
  have ev: "frame_events f = (if bButtonRepeats f = 0 then []
               else concat (replicate (unat (bButtonRepeats f)) D))"
    using assms(6,7)
    by (auto simp add: frame_events_def button_events_def button_delay_events_def)
  have "dispatches (frame_events f) = 0"
    using assms(6) by (auto simp add: dispatches_frame_events)
  moreover have "sends (frame_events f) = []"
    using assms(6) by (auto simp add: sends_frame_events)
  ultimately show ?thesis
    using s' unfolding ev by blast
qed

theorem zero_repeats_skipped_witness:
  "uiDataArrayPointer (queue2 example_zero_key example_key) \<le> MAX_SEQUENCES \<and>
   current_state (queue2 example_zero_key example_key) = eIDLE \<and>
   bFreshDataFlag (queue2 example_zero_key example_key) \<and>
   0 < uiDataArrayPointer (queue2 example_zero_key example_key) \<and>
   bButtonRepeats (ra (uDataArray (queue2 example_zero_key example_key) ! 0)) = 0 \<and>
   map_option trace (loop (queue2 example_zero_key example_key)) =
     Some (trace (queue2 example_zero_key example_key) @
       [DigitalWrite False,
        Switch 0, SendRC6 0xC05C01 24, Delay 124,
        Switch 0, SendRC6 0xC05C01 24, Delay 124,
        Switch 0, SendRC6 0xC05C01 24, Delay 124,
        Delay 400,
        Switch 0, SendRC6 0xC05C01 24, Delay 124,
        Switch 0, SendRC6 0xC05C01 24, Delay 124,
        Switch 0, SendRC6 0xC05C01 24, Delay 124,
        Delay 400,
        DigitalWrite True]) \<and>
   map_option current_state (loop (queue2 example_zero_key example_key)) = Some eIDLE \<and>
   map_option iDataArrayIndex (loop (queue2 example_zero_key example_key)) = Some 2 \<and>
   bPulseTrainRepeats (ra (uDataArray (queue2 example_wait_key example_key) ! 0)) = 0 \<and>
   map_option trace (loop (queue2 example_wait_key example_key)) =
     Some (trace (queue2 example_wait_key example_key) @
       [DigitalWrite False,
        Delay 400, Delay 400,
        Switch 0, SendRC6 0xC05C01 24, Delay 124,
        Switch 0, SendRC6 0xC05C01 24, Delay 124,
        Switch 0, SendRC6 0xC05C01 24, Delay 124,
        Delay 400,
        Switch 0, SendRC6 0xC05C01 24, Delay 124,
        Switch 0, SendRC6 0xC05C01 24, Delay 124,
        Switch 0, SendRC6 0xC05C01 24, Delay 124,
        Delay 400,
        DigitalWrite True])"
proof -
  let ?S = "queue2 example_zero_key example_key"
  have h: "uiDataArrayPointer ?S \<le> MAX_SEQUENCES" "current_state ?S = eIDLE"
      "bFreshDataFlag ?S" "0 < uiDataArrayPointer ?S"
    by (simp_all add: queue2_fields MAX_SEQUENCES_def fresh_def example_key_ra)
  have f: "ra (uDataArray ?S ! 0) = ra example_zero_key"
    by (simp add: queue2_fields)
  have z: "bButtonRepeats (ra example_zero_key) = 0 \<or> bPulseTrainRepeats (ra example_zero_key) = 0"
    by (simp add: example_zero_key_ra)
  have first: "bButtonRepeats (ra (uDataArray ?S ! 0)) = 0 \<and>
   map_option trace (loop ?S) =
     Some (trace ?S @
       [DigitalWrite False,
        Switch 0, SendRC6 0xC05C01 24, Delay 124,
        Switch 0, SendRC6 0xC05C01 24, Delay 124,
        Switch 0, SendRC6 0xC05C01 24, Delay 124,
        Delay 400,
        Switch 0, SendRC6 0xC05C01 24, Delay 124,
        Switch 0, SendRC6 0xC05C01 24, Delay 124,
        Switch 0, SendRC6 0xC05C01 24, Delay 124,
        Delay 400,
        DigitalWrite True]) \<and>
   map_option current_state (loop ?S) = Some eIDLE \<and>
   map_option iDataArrayIndex (loop ?S) = Some 2"
    using zero_repeats_skipped [OF h f [symmetric] z refl] h
    by (auto simp add: queue2_fields slots_events_eval example_key_events
          example_zero_key_ra)
  let ?W = "queue2 example_wait_key example_key"
  have hw: "uiDataArrayPointer ?W \<le> MAX_SEQUENCES" "current_state ?W = eIDLE"
      "bFreshDataFlag ?W" "0 < uiDataArrayPointer ?W"
    by (simp_all add: queue2_fields MAX_SEQUENCES_def fresh_def example_key_ra)
  have fw: "ra (uDataArray ?W ! 0) = ra example_wait_key"
    by (simp add: queue2_fields)
  have zw: "bButtonRepeats (ra example_wait_key) = 0 \<or> bPulseTrainRepeats (ra example_wait_key) = 0"
    by (simp add: example_wait_key_ra)
  have second: "bPulseTrainRepeats (ra (uDataArray ?W ! 0)) = 0 \<and>
   map_option trace (loop ?W) =
     Some (trace ?W @
       [DigitalWrite False,
        Delay 400, Delay 400,
        Switch 0, SendRC6 0xC05C01 24, Delay 124,
        Switch 0, SendRC6 0xC05C01 24, Delay 124,
        Switch 0, SendRC6 0xC05C01 24, Delay 124,
        Delay 400,
        Switch 0, SendRC6 0xC05C01 24, Delay 124,
        Switch 0, SendRC6 0xC05C01 24, Delay 124,
        Switch 0, SendRC6 0xC05C01 24, Delay 124,
        Delay 400,
        DigitalWrite True])"
    using zero_repeats_skipped [OF hw fw [symmetric] zw refl] hw
    by (auto simp add: queue2_fields slots_events_eval example_key_events
          example_wait_key_ra replicate_small)
  show ?thesis
    using first second h by simp
qed

text \<open>
  C10: the delay between pulse trains follows every encoder dispatch, the last of a
  button repeat too, and the delay between button repeats (when it is not 0) follows
  every button repeat, the last too: the playback of a slot ends with a delay.
\<close>

theorem trailing_delays:
  assumes "iDataArrayIndex s < MAX_SEQUENCES"
    and "f = ra (uDataArray s ! iDataArrayIndex s)"
    and "P = Switch (bEncoding f) # irsend f @ [Delay (unat (bDelayBetweenPulseTrainRepeats f))]"
    and "D = (if 0 < ui16DelayBetweenButtonRepeats f
              then [Delay (unat (ui16DelayBetweenButtonRepeats f))] else [])"
  shows "(\<exists>s1. pulse_loop (s\<lparr>iPulseTrainRepeats := 0\<rparr>) = Some s1 \<and>
            trace s1 = trace s @ concat (replicate (unat (bPulseTrainRepeats f)) P) \<and>
            (0 < bPulseTrainRepeats f \<longrightarrow>
               last (trace s1) = Delay (unat (bDelayBetweenPulseTrainRepeats f)))) \<and>
         (\<exists>s2. button_loop (s\<lparr>iButtonRepeats := 0\<rparr>) = Some s2 \<and>
            trace s2 = trace s @
              concat (replicate (unat (bButtonRepeats f))
                (concat (replicate (unat (bPulseTrainRepeats f)) P) @ D)) \<and>
            (0 < bButtonRepeats f \<and> 0 < ui16DelayBetweenButtonRepeats f \<longrightarrow>
               last (trace s2) = Delay (unat (ui16DelayBetweenButtonRepeats f))) \<and>
            (0 < bButtonRepeats f \<and> 0 < bPulseTrainRepeats f \<and>
             ui16DelayBetweenButtonRepeats f = 0 \<longrightarrow>
               last (trace s2) = Delay (unat (bDelayBetweenPulseTrainRepeats f))))"
proof (intro conjI)
  have PD: "P = pulse_events f" "D = button_delay_events f"
    using assms(3,4) by (simp_all add: pulse_events_def button_delay_events_def)
  have Pne: "P \<noteq> []" "last P = Delay (unat (bDelayBetweenPulseTrainRepeats f))"
    using assms(3) by simp_all
  let ?p = "unat (bPulseTrainRepeats f)"
  let ?b = "unat (bButtonRepeats f)"
  let ?s1 = "s\<lparr>iPulseTrainRepeats := ?p, trace := trace s @ concat (replicate ?p P)\<rparr>"
  have pl: "pulse_loop (s\<lparr>iPulseTrainRepeats := 0\<rparr>) = Some ?s1"
    using pulse_loop_spec [of "s\<lparr>iPulseTrainRepeats := 0\<rparr>"] assms(1,2)
    by (simp add: PD)
  have pos: "\<And>w :: byte. 0 < w \<longleftrightarrow> 0 < unat w"
    by (simp add: word_greater_zero_iff unat_gt_0)
  show "\<exists>s1. pulse_loop (s\<lparr>iPulseTrainRepeats := 0\<rparr>) = Some s1 \<and>
            trace s1 = trace s @ concat (replicate ?p P) \<and>
            (0 < bPulseTrainRepeats f \<longrightarrow>
               last (trace s1) = Delay (unat (bDelayBetweenPulseTrainRepeats f)))"
  proof (intro exI conjI impI)
    show "pulse_loop (s\<lparr>iPulseTrainRepeats := 0\<rparr>) = Some ?s1" by (rule pl)
    show "trace ?s1 = trace s @ concat (replicate ?p P)" by simp
    assume "0 < bPulseTrainRepeats f"
    then have "0 < ?p" by (simp add: pos)
    then show "last (trace ?s1) = Delay (unat (bDelayBetweenPulseTrainRepeats f))"
      using last_concat_replicate [OF _ Pne(1)] Pne(2) by simp
  qed
  let ?B = "concat (replicate ?p P) @ D"
  let ?s2 = "s\<lparr>iPulseTrainRepeats := (if 0 < ?b then ?p else iPulseTrainRepeats s),
            iButtonRepeats := ?b,
            trace := trace s @ concat (replicate ?b ?B)\<rparr>"
  have bl: "button_loop (s\<lparr>iButtonRepeats := 0\<rparr>) = Some ?s2"
    using button_loop_spec [of "s\<lparr>iButtonRepeats := 0\<rparr>"] assms(1,2)
    by (simp add: PD button_events_def)
  show "\<exists>s2. button_loop (s\<lparr>iButtonRepeats := 0\<rparr>) = Some s2 \<and>
            trace s2 = trace s @ concat (replicate ?b ?B) \<and>
            (0 < bButtonRepeats f \<and> 0 < ui16DelayBetweenButtonRepeats f \<longrightarrow>
               last (trace s2) = Delay (unat (ui16DelayBetweenButtonRepeats f))) \<and>
            (0 < bButtonRepeats f \<and> 0 < bPulseTrainRepeats f \<and>
             ui16DelayBetweenButtonRepeats f = 0 \<longrightarrow>
               last (trace s2) = Delay (unat (bDelayBetweenPulseTrainRepeats f)))"
  proof (intro exI conjI impI)
    show "button_loop (s\<lparr>iButtonRepeats := 0\<rparr>) = Some ?s2" by (rule bl)
    show "trace ?s2 = trace s @ concat (replicate ?b ?B)" by simp
  next
    assume a: "0 < bButtonRepeats f \<and> 0 < ui16DelayBetweenButtonRepeats f"
    then have b: "0 < ?b" by (simp add: pos)
    have "?B \<noteq> []" "last ?B = Delay (unat (ui16DelayBetweenButtonRepeats f))"
      using a assms(4) by simp_all
    then show "last (trace ?s2) = Delay (unat (ui16DelayBetweenButtonRepeats f))"
      using last_concat_replicate [OF b, of ?B "trace s"] by simp
  next
    assume a: "0 < bButtonRepeats f \<and> 0 < bPulseTrainRepeats f \<and>
             ui16DelayBetweenButtonRepeats f = 0"
    then have b: "0 < ?b" and p: "0 < ?p" by (simp_all add: pos)
    have D: "D = []" using a assms(4) by simp
    have "?B \<noteq> []" "last ?B = Delay (unat (bDelayBetweenPulseTrainRepeats f))"
      using last_concat_replicate [OF p Pne(1), of "[]"] Pne p by (auto simp add: D)
    then show "last (trace ?s2) = Delay (unat (bDelayBetweenPulseTrainRepeats f))"
      using last_concat_replicate [OF b, of ?B "trace s"] by simp
  qed
qed

theorem trailing_delays_witness:
  "iDataArrayIndex example_state < MAX_SEQUENCES \<and>
   map_option trace (pulse_loop (example_state\<lparr>iPulseTrainRepeats := 0\<rparr>)) =
     Some (trace example_state @
       [Switch 0, SendRC6 0xC05C01 24, Delay 124,
        Switch 0, SendRC6 0xC05C01 24, Delay 124,
        Switch 0, SendRC6 0xC05C01 24, Delay 124]) \<and>
   map_option (last \<circ> trace) (pulse_loop (example_state\<lparr>iPulseTrainRepeats := 0\<rparr>)) =
     Some (Delay 124) \<and>
   map_option (last \<circ> trace) (button_loop (example_state\<lparr>iButtonRepeats := 0\<rparr>)) =
     Some (Delay 400) \<and>
   iDataArrayIndex (queue2 example_odd_key example_key) < MAX_SEQUENCES \<and>
   ui16DelayBetweenButtonRepeats
     (ra (uDataArray (queue2 example_odd_key example_key) !
        iDataArrayIndex (queue2 example_odd_key example_key))) = 0 \<and>
   map_option trace
     (button_loop ((queue2 example_odd_key example_key)\<lparr>iButtonRepeats := 0\<rparr>)) =
     Some (trace (queue2 example_odd_key example_key) @ [Switch 9, Delay 22, Switch 9, Delay 22])"
proof -
  define f where "f = ra (uDataArray example_state ! iDataArrayIndex example_state)"
  have i: "iDataArrayIndex example_state = 0"
    by (simp add: example_state_def setup_fn_def)
  have f: "f = \<lparr>bEncoding = 0, ui32Data = 0xC05C01, bNumberOfBitsInTheData = 24,
     bPulseTrainRepeats = 3, bDelayBetweenPulseTrainRepeats = 124, bButtonRepeats = 2,
     ui16DelayBetweenButtonRepeats = 400, bFreshData = 0xFF\<rparr>"
    unfolding f_def i example_state_slot by (rule example_key_ra)
  have lt: "iDataArrayIndex example_state < MAX_SEQUENCES"
    by (simp add: i MAX_SEQUENCES_def)
  have send: "irsend f = [SendRC6 0xC05C01 24]"
    by (simp add: f irsend_def ENCODING_TYPE_RC6_def)
  have n: "unat (bPulseTrainRepeats f) = Suc (Suc (Suc 0))"
    by (simp add: f)
  have first: "map_option trace (pulse_loop (example_state\<lparr>iPulseTrainRepeats := 0\<rparr>)) =
     Some (trace example_state @
       [Switch 0, SendRC6 0xC05C01 24, Delay 124,
        Switch 0, SendRC6 0xC05C01 24, Delay 124,
        Switch 0, SendRC6 0xC05C01 24, Delay 124]) \<and>
   map_option (last \<circ> trace) (pulse_loop (example_state\<lparr>iPulseTrainRepeats := 0\<rparr>)) =
     Some (Delay 124) \<and>
   map_option (last \<circ> trace) (button_loop (example_state\<lparr>iButtonRepeats := 0\<rparr>)) =
     Some (Delay 400)"
    using trailing_delays [OF lt f_def refl refl]
    unfolding send n
    by (auto simp add: f)
  let ?S = "queue2 example_odd_key example_key"
  define g where "g = ra (uDataArray ?S ! iDataArrayIndex ?S)"
  have j: "iDataArrayIndex ?S = 0"
    by (simp add: queue2_def setup_fn_def)
  have g: "g = \<lparr>bEncoding = 9, ui32Data = 0x140C, bNumberOfBitsInTheData = 15,
     bPulseTrainRepeats = 2, bDelayBetweenPulseTrainRepeats = 22, bButtonRepeats = 1,
     ui16DelayBetweenButtonRepeats = 0, bFreshData = 0\<rparr>"
    unfolding g_def j queue2_fields by (rule example_odd_key_ra)
  have lt2: "iDataArrayIndex ?S < MAX_SEQUENCES"
    by (simp add: j MAX_SEQUENCES_def)
  have nosend: "irsend g = []"
    by (simp add: g irsend_def ENCODING_TYPE_RC6_def ENCODING_TYPE_SONY_def
          ENCODING_TYPE_SAMSUNG_def ENCODING_TYPE_NEC_def ENCODING_TYPE_LG_def)
  have second: "map_option trace (button_loop (?S\<lparr>iButtonRepeats := 0\<rparr>)) =
     Some (trace ?S @ [Switch 9, Delay 22, Switch 9, Delay 22])"
    using trailing_delays [OF lt2 g_def refl refl]
    unfolding nosend
    by (auto simp add: g replicate_small)
  have "ui16DelayBetweenButtonRepeats (ra (uDataArray ?S ! iDataArrayIndex ?S)) = 0"
    unfolding g_def [symmetric] by (simp add: g)
  then show ?thesis
    using first second lt lt2 by simp
qed

end
